theory Spec2Isabelle
  imports Main "HOL-Library.Sublist" "HOL-Library.Word"
begin

section \<open>The audio transcriber and summarizer: data model\<close>

text \<open>
  The program is a TypeScript script (\<^verbatim>\<open>transcribe.ts\<close>) with a small helper
  (\<^verbatim>\<open>local_types/gpt_models.ts\<close>). Its own logic is string handling (a line wrapper, a
  model-alias resolver, file names) and the sequencing of calls to the file system and to
  three external services. The embedding below keeps that shape:

  \<^item> a JavaScript string is a \<open>string\<close>, one \<open>char\<close> per UTF-16 code unit; the
    development covers the code units U+0000 to U+00FF (the Latin-1 range), which is
    where every literal of the source lives;
  \<^item> the loop counters are \<open>nat\<close> (the source counts up from 0 in steps of one);
  \<^item> the width of the line wrapper is a \<open>32 word\<close>, read unsigned: the whole numbers
    from 0 to \<open>2\<^sup>3\<^sup>2 - 1\<close>, each of which is a JavaScript number that the pattern
    template prints as its decimal digits (the program passes 80);
  \<^item> the working directory is an association list from file names to contents, so it is
    finite, as a directory is;
  \<^item> an exception is a value of \<open>jsError\<close>, and a function that can throw returns a sum;
  \<^item> the speech-recognition backend, the chat backend and the media-splitting executable
    are parameters (\<open>backends\<close>): nothing is assumed about what they answer;
  \<^item> the parsed command line is the record \<open>args\<close>, which the source reads as a global;
  \<^item> what the program does to the outside is recorded in a \<open>world\<close>: the files, the
    console lines, and the requests sent to the two remote backends, in order.
\<close>

datatype jsError = Error string | TypeError | SyntaxError

datatype consoleLine = Log string | Err string

type_synonym fileSystem = "(string \<times> string) list"

datatype ChatModel = GPT3_5 | GPT4

datatype reply = Rejected string | Replied "string option"

record world =
  files :: fileSystem
  console :: "consoleLine list"
  transcriptionRequests :: "string list"
  chatRequests :: "(ChatModel \<times> string) list"

record backends =
  execSync :: "string \<Rightarrow> fileSystem \<Rightarrow> string option \<times> fileSystem"
  createTranscription :: "nat \<Rightarrow> string \<Rightarrow> reply"
  createChatCompletion :: "ChatModel \<Rightarrow> string \<Rightarrow> jsError + string"

record args =
  file_names_or_urls :: "string list"
  summarize :: bool
  gpt_model :: string

datatype completion = Pending | Returned | Threw jsError

datatype pipeline = DownloadAudioFromYouTube string | TranscribeLargeAudioFile string

section \<open>Strings\<close>

text \<open>
  \<^verbatim>\<open>String.prototype.toLowerCase\<close> on the Latin-1 range: the letters A to Z, and the
  letters U+00C0 to U+00DE except the multiplication sign U+00D7, move up by 32.
\<close>

definition toLowerCaseChar :: "char \<Rightarrow> char" where
  "toLowerCaseChar c =
     (let n = (of_char c :: nat)
      in if (65 \<le> n \<and> n \<le> 90) \<or> (192 \<le> n \<and> n \<le> 222 \<and> n \<noteq> 215)
         then char_of (n + 32) else c)"

definition toLowerCase :: "string \<Rightarrow> string" where
  "toLowerCase s = map toLowerCaseChar s"

text \<open>\<^verbatim>\<open>s.startsWith(p)\<close> and \<^verbatim>\<open>s.endsWith(p)\<close>, by position as the built-ins compare.\<close>

definition startsWith :: "string \<Rightarrow> string \<Rightarrow> bool" where
  "startsWith s searchString = (take (length searchString) s = searchString)"

definition endsWith :: "string \<Rightarrow> string \<Rightarrow> bool" where
  "endsWith s searchString =
     (length searchString \<le> length s \<and> drop (length s - length searchString) s = searchString)"

text \<open>
  \<^verbatim>\<open>s.replace(pattern, replacement)\<close> with a string pattern: only the first occurrence is
  replaced. (The source's replacement is the empty string, so the \<^verbatim>\<open>$\<close> patterns of
  the built-in play no part.)
\<close>

fun stringReplace :: "string \<Rightarrow> string \<Rightarrow> string \<Rightarrow> string" where
  "stringReplace [] pattern replacement = (if pattern = [] then replacement else [])"
| "stringReplace (c # cs) pattern replacement =
     (if startsWith (c # cs) pattern then replacement @ drop (length pattern) (c # cs)
      else c # stringReplace cs pattern replacement)"

text \<open>\<^verbatim>\<open>String(i)\<close> for a counter \<open>i\<close>: its decimal digits.\<close>

definition digitChar :: "nat \<Rightarrow> char" where
  "digitChar d = char_of (48 + d)"

fun toString :: "nat \<Rightarrow> string" where
  "toString n = (if n < 10 then [digitChar n] else toString (n div 10) @ [digitChar (n mod 10)])"

declare toString.simps [simp del]

definition padStart :: "string \<Rightarrow> nat \<Rightarrow> char \<Rightarrow> string" where
  "padStart s targetLength padChar = replicate (targetLength - length s) padChar @ s"

text \<open>The template \<^verbatim>\<open>`out${String(i).padStart(3, '0')}.mp3`\<close> of both loops.\<close>

definition chunkFileName :: "nat \<Rightarrow> string" where
  "chunkFileName i = ''out'' @ padStart (toString i) 3 (CHR ''0'') @ ''.mp3''"

text \<open>A name between double quotes, as the templates of the log lines write it.\<close>

definition quoted :: "string \<Rightarrow> string" where
  "quoted s = [CHR 0x22] @ s @ [CHR 0x22]"

text \<open>
  The value of a digit string (leading zeros allowed). The program never parses a file
  name; this function only serves to show that \<open>chunkFileName\<close> is injective.
\<close>

definition digitsValue :: "string \<Rightarrow> nat" where
  "digitsValue s = foldl (\<lambda>acc c. 10 * acc + (of_char c - 48)) 0 s"

section \<open>The line wrapper\<close>

text \<open>
  \<^verbatim>\<open>
  function splitStringIntoLines(inputString: string, lineLength: number): string {
      const regex = new RegExp(`.{1,${lineLength}}`, 'g')
      const lines = inputString.match(regex)
      return lines.join('\n')
  }
  \<close>
  Without the \<^verbatim>\<open>s\<close> flag the dot matches every code unit but a line terminator (line
  feed and carriage return in the range covered here). A global match scans from left to
  right: it skips the code units at which no match starts, takes greedily up to
  \<open>lineLength\<close> code units the dot matches, and goes on after them.
  \<open>regexMatchAll w\<close> is that scan for the quantifier \<^verbatim>\<open>{1,w+1}\<close>.
  \<^verbatim>\<open>match\<close> returns \<^verbatim>\<open>null\<close> when there is no match at all, and
  \<^verbatim>\<open>null.join\<close> throws a TypeError; with \<open>lineLength = 0\<close> the quantifier
  \<^verbatim>\<open>{1,0}\<close> is out of order and the constructor throws a SyntaxError.

  The template puts \<^verbatim>\<open>String(lineLength)\<close> into the pattern, and that is a quantifier
  bound only while the number prints as a string of digits: a whole number below
  \<open>10\<^sup>2\<^sup>1\<close>. From there on a number prints with an exponent (\<^verbatim>\<open>1e+21\<close>), a
  fraction prints with a point, and the braces are then read as plain characters of
  another pattern. Those widths are not part of this development: \<open>lineLength\<close> is a
  32-bit word, read unsigned by \<open>unat\<close>, so every width of the model is a whole number
  from 0 to \<open>2\<^sup>3\<^sup>2 - 1\<close> and prints as its digits.
\<close>

definition isLineTerminator :: "char \<Rightarrow> bool" where
  "isLineTerminator c = (c = CHR 0x0A \<or> c = CHR 0x0D)"

function regexMatchAll :: "nat \<Rightarrow> string \<Rightarrow> string list" where
  "regexMatchAll w [] = []"
| "regexMatchAll w (c # cs) =
     (if isLineTerminator c then regexMatchAll w cs
      else let m = take (Suc w) (takeWhile (\<lambda>x. \<not> isLineTerminator x) (c # cs))
           in m # regexMatchAll w (drop (length m) (c # cs)))"
  by pat_completeness auto
termination
  by (relation "measure (\<lambda>(w, s). length s)") auto

definition stringMatch :: "string \<Rightarrow> nat \<Rightarrow> string list option" where
  "stringMatch inputString w =
     (case regexMatchAll w inputString of [] \<Rightarrow> None | l # ls \<Rightarrow> Some (l # ls))"

fun join :: "string list \<Rightarrow> string \<Rightarrow> string" where
  "join [] separator = []"
| "join [l] separator = l"
| "join (l # l' # ls) separator = l @ separator @ join (l' # ls) separator"

definition splitStringIntoLines :: "string \<Rightarrow> 32 word \<Rightarrow> jsError + string" where
  "splitStringIntoLines inputString lineLength =
     (case unat lineLength of
        0 \<Rightarrow> Inl SyntaxError
      | Suc w \<Rightarrow>
          (case stringMatch inputString w of
             None \<Rightarrow> Inl TypeError
           | Some lines \<Rightarrow> Inr (join lines ''\<newline>'')))"

section \<open>The chat model resolver\<close>

text \<open>
  \<^verbatim>\<open>
  export enum ChatModel { GPT3_5 = "gpt-3.5-turbo", GPT4 = "gpt-4" }

  export function getChatModelFromString(chatModelStr: string): ChatModel | undefined {
      switch (chatModelStr.toLowerCase()) {
          case "gpt3_5": return ChatModel.GPT3_5;
          case "gpt4":   return ChatModel.GPT4;
          default: throw Error(`Unsupported GPT model \"${chatModelStr}\"`)
      }
  }
  \<close>
\<close>

fun chatModelValue :: "ChatModel \<Rightarrow> string" where
  "chatModelValue GPT3_5 = ''gpt-3.5-turbo''"
| "chatModelValue GPT4 = ''gpt-4''"

definition unsupportedModel :: "string \<Rightarrow> jsError" where
  "unsupportedModel chatModelStr = Error (''Unsupported GPT model '' @ quoted chatModelStr)"

definition getChatModelFromString :: "string \<Rightarrow> jsError + ChatModel" where
  "getChatModelFromString chatModelStr =
     (let s = toLowerCase chatModelStr
      in if s = ''gpt3_5'' then Inr GPT3_5
         else if s = ''gpt4'' then Inr GPT4
         else Inl (unsupportedModel chatModelStr))"

section \<open>The file system and the console\<close>

text \<open>
  A directory holds plain files only: permissions, subdirectories and full disks are not
  modelled, so \<^verbatim>\<open>fs.writeFileSync\<close> always succeeds and \<^verbatim>\<open>fs.unlinkSync\<close> fails
  only on a name that is not there.
\<close>

definition existsSync :: "fileSystem \<Rightarrow> string \<Rightarrow> bool" where
  "existsSync fs path = (path \<in> fst ` set fs)"

text \<open>\<^verbatim>\<open>fs.unlinkSync\<close> throws when the path names no file.\<close>

definition unlinkSync :: "fileSystem \<Rightarrow> string \<Rightarrow> jsError + fileSystem" where
  "unlinkSync fs path =
     (if existsSync fs path then Inr (filter (\<lambda>entry. fst entry \<noteq> path) fs)
      else Inl (Error ''ENOENT''))"

definition writeFileSync :: "fileSystem \<Rightarrow> string \<Rightarrow> string \<Rightarrow> fileSystem" where
  "writeFileSync fs path content = (path, content) # filter (\<lambda>entry. fst entry \<noteq> path) fs"

text \<open>
  The content of a file, if the file exists. The program reads no file itself (the chunks
  go to the speech backend by name); the theorems use \<open>readFile\<close> to say what a
  directory holds.
\<close>

definition readFile :: "fileSystem \<Rightarrow> string \<Rightarrow> string option" where
  "readFile fs path = map_of fs path"

definition consoleLog :: "string \<Rightarrow> world \<Rightarrow> world" where
  "consoleLog line w = w\<lparr>console := console w @ [Log line]\<rparr>"

definition consoleError :: "string \<Rightarrow> world \<Rightarrow> world" where
  "consoleError line w = w\<lparr>console := console w @ [Err line]\<rparr>"

section \<open>The audio chunker\<close>

text \<open>
  \<^verbatim>\<open>
  function splitAudioFile(audioFileName: string) {
      try {
          const command = `ffmpeg -i "${audioFileName}" -f segment -segment_time 200 -c:a libmp3lame out%03d.mp3`
          execSync(command, { stdio: 'inherit' })
      } catch (error: any) {
          console.error(`Error splitting audio: ${...}`)
      }
  }
  \<close>
  The executable is the parameter \<open>execSync\<close>: from the command and the directory it
  gives the directory it leaves behind, and the message of the error it raised, if any.
\<close>

definition splitAudioFile :: "backends \<Rightarrow> string \<Rightarrow> world \<Rightarrow> world" where
  "splitAudioFile B audioFileName w =
     (let command = ''ffmpeg -i '' @ quoted audioFileName
                    @ '' -f segment -segment_time 200 -c:a libmp3lame out%03d.mp3''
      in case execSync B command (files w) of
           (None, fs') \<Rightarrow> w\<lparr>files := fs'\<rparr>
         | (Some message, fs') \<Rightarrow>
             consoleError (''Error splitting audio: '' @ message) (w\<lparr>files := fs'\<rparr>))"

text \<open>
  \<^verbatim>\<open>
  function cleanupAudioChunks() {
      let i = 0
      let fileName = `out${String(i).padStart(3, '0')}.mp3`
      while (fs.existsSync(fileName)) {
          fs.unlinkSync(fileName)
          fileName = `out${String(++i).padStart(3, '0')}.mp3`
      }
  }
  \<close>
  Every turn of the loop removes a file of a finite directory, so the loop is a total
  function: the measure is the number of entries.
\<close>

function cleanupLoop :: "nat \<Rightarrow> string \<Rightarrow> fileSystem \<Rightarrow> jsError + fileSystem" where
  "cleanupLoop i fileName fs =
     (if existsSync fs fileName then
        (case unlinkSync fs fileName of
           Inl e \<Rightarrow> Inl e
         | Inr fs' \<Rightarrow> cleanupLoop (Suc i) (chunkFileName (Suc i)) fs')
      else Inr fs)"
  by pat_completeness auto
termination
proof (relation "measure (\<lambda>(i, fileName, fs). length fs)")
  show "wf (measure (\<lambda>(i, fileName, fs). length fs))"
    by simp
next
  fix i :: nat and fileName :: string and fs fs' :: fileSystem
  assume here: "existsSync fs fileName" and gone: "unlinkSync fs fileName = Inr fs'"
  from gone here have "fs' = filter (\<lambda>entry. fst entry \<noteq> fileName) fs"
    by (simp add: unlinkSync_def)
  moreover from here obtain entry where "entry \<in> set fs" and "\<not> fst entry \<noteq> fileName"
    by (auto simp: existsSync_def)
  ultimately have "length fs' < length fs"
    using length_filter_less [of entry fs "\<lambda>entry. fst entry \<noteq> fileName"] by simp
  then show "((Suc i, chunkFileName (Suc i), fs'), (i, fileName, fs))
      \<in> measure (\<lambda>(i, fileName, fs). length fs)"
    by simp
qed

declare cleanupLoop.simps [simp del]

definition cleanupAudioChunks :: "world \<Rightarrow> jsError + world" where
  "cleanupAudioChunks w =
     (case cleanupLoop 0 (chunkFileName 0) (files w) of
        Inl e \<Rightarrow> Inl e
      | Inr fs' \<Rightarrow> Inr (w\<lparr>files := fs'\<rparr>))"

section \<open>The transcription client\<close>

text \<open>
  \<^verbatim>\<open>
  async function transcribeSmallAudioFile(audioFileName: string): Promise<string | undefined> {
      try {
          const resp = await openai.createTranscription(fs.createReadStream(audioFileName), 'whisper-1')
          return resp.data.text
      } catch (error: any) {
          console.error(`Error transcribing: ${error.message}`)
          return undefined
      }
  }
  \<close>
  The backend is the parameter \<open>createTranscription\<close>: its answer may depend on the file
  and on how many requests came before, so a request that failed may succeed when it is
  repeated. \<open>None\<close> is \<^verbatim>\<open>undefined\<close>.
\<close>

definition transcribeSmallAudioFile :: "backends \<Rightarrow> string \<Rightarrow> world \<Rightarrow> string option \<times> world" where
  "transcribeSmallAudioFile B audioFileName w =
     (let w' = w\<lparr>transcriptionRequests := transcriptionRequests w @ [audioFileName]\<rparr>
      in case createTranscription B (length (transcriptionRequests w)) audioFileName of
           Replied text \<Rightarrow> (text, w')
         | Rejected message \<Rightarrow> (None, consoleError (''Error transcribing: '' @ message) w'))"

section \<open>The transcript aggregator\<close>

text \<open>
  The scan of \<^verbatim>\<open>transcribeLargeAudioFile\<close>:
  \<^verbatim>\<open>
      let aggregatedTranscription = ''
      let i = 0
      let fileName = `out${String(i).padStart(3, '0')}.mp3`
      console.log('\n')
      while (fs.existsSync(fileName)) {
          console.log(`Processing file: "${fileName}"`)
          const transcription = await transcribeSmallAudioFile(fileName)

          if (transcription === undefined) {
              console.error(`Failed to transcribe "${fileName}"`)
              continue
          }

          aggregatedTranscription += transcription + '\n\n'
          console.log(`Transcription for "${fileName}" added`)

          fileName = `out${String(++i).padStart(3, '0')}.mp3`
      }
  \<close>
  Nothing bounds the number of turns, so the loop takes fuel: one unit per turn. It gives
  \<open>Some\<close> of the aggregated transcription when the loop is left, and \<open>None\<close> when the
  fuel runs out inside it; the world reached is returned in both cases. The
  \<^verbatim>\<open>continue\<close> is the recursive call with \<open>i\<close> and \<open>fileName\<close> as they are.
\<close>

fun scanLoop ::
  "backends \<Rightarrow> nat \<Rightarrow> nat \<Rightarrow> string \<Rightarrow> string \<Rightarrow> world \<Rightarrow> string option \<times> world" where
  "scanLoop B 0 i fileName aggregatedTranscription w = (None, w)"
| "scanLoop B (Suc fuel) i fileName aggregatedTranscription w =
     (if existsSync (files w) fileName then
        (case transcribeSmallAudioFile B fileName
                (consoleLog (''Processing file: '' @ quoted fileName) w) of
           (None, w') \<Rightarrow>
             scanLoop B fuel i fileName aggregatedTranscription
               (consoleError (''Failed to transcribe '' @ quoted fileName) w')
         | (Some transcription, w') \<Rightarrow>
             scanLoop B fuel (Suc i) (chunkFileName (Suc i))
               (aggregatedTranscription @ transcription @ ''\<newline>\<newline>'')
               (consoleLog (''Transcription for '' @ quoted fileName @ '' added'') w'))
      else (Some aggregatedTranscription, w))"

text \<open>
  The rest of \<^verbatim>\<open>transcribeLargeAudioFile\<close>: the chunks are deleted, an empty
  transcription is reported and ends the function, otherwise the wrapped transcription is
  written, and the summary is asked for and written when \<^verbatim>\<open>args.summarize\<close> is set.
  An argument is evaluated before the call it belongs to, so a throwing
  \<open>splitStringIntoLines\<close> or \<open>getChatModelFromString\<close> leaves the write or the request
  undone.
\<close>

definition summaryPrompt :: "string \<Rightarrow> string" where
  "summaryPrompt aggregatedTranscription =
     ''Please give me a summary of the following transcript. Be sure to outline any big ideas\<newline>''
     @ ''```'' @ aggregatedTranscription @ ''```''"

definition transcribeLargeAudioFile ::
  "backends \<Rightarrow> args \<Rightarrow> nat \<Rightarrow> string \<Rightarrow> world \<Rightarrow> completion \<times> world" where
  "transcribeLargeAudioFile B A fuel audioFileName w0 =
     (case scanLoop B fuel 0 (chunkFileName 0) ''''
             (consoleLog ''\<newline>'' (splitAudioFile B audioFileName w0)) of
        (None, w1) \<Rightarrow> (Pending, w1)
      | (Some aggregatedTranscription, w1) \<Rightarrow>
          (case cleanupAudioChunks w1 of
             Inl e \<Rightarrow> (Threw e, w1)
           | Inr w2 \<Rightarrow>
               (if aggregatedTranscription = '''' then
                  (Returned, consoleError ''No transcriptions were processed'' w2)
                else
                  (let transcriptFileName =
                         stringReplace audioFileName ''.mp3'' '''' @ ''_transcript.txt''
                   in (case splitStringIntoLines aggregatedTranscription 80 of
                         Inl e \<Rightarrow> (Threw e, w2)
                       | Inr wrapped \<Rightarrow>
                           (let w3 = consoleLog
                                       (''\<newline>All transcriptions aggregated and saved to ''
                                          @ quoted transcriptFileName)
                                       (w2\<lparr>files :=
                                             writeFileSync (files w2) transcriptFileName wrapped\<rparr>)
                            in (if summarize A then
                                  (case getChatModelFromString (gpt_model A) of
                                     Inl e \<Rightarrow> (Threw e, w3)
                                   | Inr model \<Rightarrow>
                                       (let content = summaryPrompt aggregatedTranscription;
                                            w4 = w3\<lparr>chatRequests :=
                                                      chatRequests w3 @ [(model, content)]\<rparr>
                                        in (case createChatCompletion B model content of
                                              Inl e \<Rightarrow> (Threw e, w4)
                                            | Inr response \<Rightarrow>
                                                (let summaryFileName =
                                                       stringReplace audioFileName ''.mp3'' ''''
                                                         @ ''_summary.txt''
                                                 in (case splitStringIntoLines response 80 of
                                                       Inl e \<Rightarrow> (Threw e, w4)
                                                     | Inr summary \<Rightarrow>
                                                         (Returned,
                                                          consoleLog
                                                            (''\<newline>Summary saved to ''
                                                               @ quoted summaryFileName)
                                                            (w4\<lparr>files :=
                                                                  writeFileSync (files w4)
                                                                    summaryFileName summary\<rparr>)))))))
                                else (Returned, w3))))))))"

section \<open>The input router\<close>

text \<open>
  \<^verbatim>\<open>
  async function main() {
      for (const fileNameOrUrl of args.file_names_or_urls) {
          if (fileNameOrUrl.startsWith('https://www.youtube.com/')) {
              downloadAudioFromYouTube(fileNameOrUrl)
          } else if (fileNameOrUrl.endsWith('.mp3')) {
              transcribeLargeAudioFile(fileNameOrUrl)
          } else {
              console.error('Invalid input. Please provide a YouTube link or an mp3 file.')
          }
      }
  }
  \<close>
  Neither call is awaited: the loop only launches the pipelines. \<open>main\<close> gives the
  pipelines launched, in order, and the world with the lines the loop itself printed.
\<close>

fun main :: "string list \<Rightarrow> world \<Rightarrow> pipeline list \<times> world" where
  "main [] w = ([], w)"
| "main (fileNameOrUrl # rest) w =
     (if startsWith fileNameOrUrl ''https://www.youtube.com/'' then
        (case main rest w of
           (launched, w') \<Rightarrow> (DownloadAudioFromYouTube fileNameOrUrl # launched, w'))
      else if endsWith fileNameOrUrl ''.mp3'' then
        (case main rest w of
           (launched, w') \<Rightarrow> (TranscribeLargeAudioFile fileNameOrUrl # launched, w'))
      else
        main rest
          (consoleError ''Invalid input. Please provide a YouTube link or an mp3 file.'' w))"

text \<open>The lines the scan prints; a description used in the proofs about the console.\<close>

definition scanLine :: "consoleLine \<Rightarrow> bool" where
  "scanLine l = (\<exists>x. l = Log (''Processing file: '' @ x) \<or> l = Err (''Error transcribing: '' @ x)
      \<or> l = Err (''Failed to transcribe '' @ x) \<or> l = Log (''Transcription for '' @ x))"

text \<open>The text of an answered request; used to write down what the scan aggregates.\<close>

definition answerText :: "reply \<Rightarrow> string" where
  "answerText r = (case r of Replied (Some t) \<Rightarrow> t | _ \<Rightarrow> [])"

section \<open>Example runs\<close>

text \<open>
  Concrete directories and backends, for the runs the theorems below are evaluated on:
  a splitter that leaves the two chunks \<open>out000.mp3\<close> and \<open>out001.mp3\<close>, speech backends
  that answer or reject by file, and the input \<open>talk.mp3\<close>.
\<close>

definition twoChunks :: "string \<Rightarrow> fileSystem \<Rightarrow> string option \<times> fileSystem" where
  "twoChunks command fs =
     (None, writeFileSync (writeFileSync fs (chunkFileName 0) ''chunk 0'') (chunkFileName 1) ''chunk 1'')"

definition answering :: "(nat \<Rightarrow> string \<Rightarrow> reply) \<Rightarrow> backends" where
  "answering speech =
     \<lparr>execSync = twoChunks, createTranscription = speech,
      createChatCompletion = (\<lambda>model content. Inr ''A greeting.'')\<rparr>"

definition helloThenFailure :: "nat \<Rightarrow> string \<Rightarrow> reply" where
  "helloThenFailure k name =
     (if name = chunkFileName 0 then Replied (Some ''Hello world'')
      else Rejected ''Request failed with status code 500'')"

definition firstChunkFails :: "nat \<Rightarrow> string \<Rightarrow> reply" where
  "firstChunkFails k name =
     (if name = chunkFileName 0 then Rejected ''Request failed with status code 500''
      else Replied (Some ''Hello world''))"

definition unauthorized :: "nat \<Rightarrow> string \<Rightarrow> reply" where
  "unauthorized k name = Rejected ''Request failed with status code 401''"

definition helloWorld :: "nat \<Rightarrow> string \<Rightarrow> reply" where
  "helloWorld k name = Replied (Some ''Hello world'')"

definition talkWorld :: world where
  "talkWorld = \<lparr>files = [(''talk.mp3'', ''audio'')], console = [],
                 transcriptionRequests = [], chatRequests = []\<rparr>"

definition cli :: "bool \<Rightarrow> args" where
  "cli flag = \<lparr>file_names_or_urls = [''talk.mp3''], summarize = flag, gpt_model = ''gpt3_5''\<rparr>"

definition cleanupExample :: world where
  "cleanupExample =
     \<lparr>files = [(''out000.mp3'', ''chunk 0''), (''talk.mp3'', ''audio''),
               (''out001.mp3'', ''chunk 1''), (''out003.mp3'', ''chunk 3'')],
      console = [], transcriptionRequests = [], chatRequests = []\<rparr>"

definition brokenSplitter :: "string \<Rightarrow> fileSystem \<Rightarrow> string option \<times> fileSystem" where
  "brokenSplitter command fs = (Some ''Command failed'', fs)"

section \<open>Facts about the line wrapper\<close>

lemma take_takeWhile_prefix:
  "take n (takeWhile P xs) @ drop (length (take n (takeWhile P xs))) xs = xs"
proof (induction xs arbitrary: n)
  case Nil
  show ?case by simp
next
  case (Cons x xs)
  show ?case
  proof (cases n)
    case 0
    then show ?thesis by simp
  next
    case (Suc k)
    with Cons [of k] show ?thesis by simp
  qed
qed

lemma filter_take_takeWhile: "filter P (take n (takeWhile P xs)) = take n (takeWhile P xs)"
  by (metis filter_id_conv in_set_takeD set_takeWhileD)

lemma regexMatchAll_Cons:
  "\<not> isLineTerminator c \<Longrightarrow>
   m = take (Suc w) (takeWhile (\<lambda>x. \<not> isLineTerminator x) (c # cs)) \<Longrightarrow>
   regexMatchAll w (c # cs) = m # regexMatchAll w (drop (length m) (c # cs))"
  by (simp add: Let_def del: take_Suc_Cons)

text \<open>The matches, put end to end, are the input without its line terminators.\<close>

lemma concat_regexMatchAll:
  "concat (regexMatchAll w s) = filter (\<lambda>c. \<not> isLineTerminator c) s"
proof (induction w s rule: regexMatchAll.induct)
  case (1 w)
  show ?case by simp
next
  case (2 w c cs)
  show ?case
  proof (cases "isLineTerminator c")
    case True
    with 2 show ?thesis by simp
  next
    case False
    define m where "m = take (Suc w) (takeWhile (\<lambda>x. \<not> isLineTerminator x) (c # cs))"
    have whole: "m @ drop (length m) (c # cs) = c # cs"
      unfolding m_def by (rule take_takeWhile_prefix)
    have keep: "filter (\<lambda>c. \<not> isLineTerminator c) m = m"
      unfolding m_def by (rule filter_take_takeWhile)
    have ih: "concat (regexMatchAll w (drop (length m) (c # cs)))
        = filter (\<lambda>c. \<not> isLineTerminator c) (drop (length m) (c # cs))"
      using 2(2) [OF False m_def] .
    have "concat (regexMatchAll w (c # cs))
        = m @ concat (regexMatchAll w (drop (length m) (c # cs)))"
      using regexMatchAll_Cons [OF False m_def] by simp
    also have "\<dots> = filter (\<lambda>c. \<not> isLineTerminator c) (m @ drop (length m) (c # cs))"
      using ih keep by simp
    finally show ?thesis using whole by simp
  qed
qed

text \<open>Every match is a line: not empty, within the width, free of line terminators.\<close>

lemma regexMatchAll_lines:
  "l \<in> set (regexMatchAll w s) \<Longrightarrow>
   l \<noteq> [] \<and> length l \<le> Suc w \<and> (\<forall>c \<in> set l. \<not> isLineTerminator c)"
proof (induction w s rule: regexMatchAll.induct)
  case (1 w)
  then show ?case by simp
next
  case (2 w c cs)
  show ?case
  proof (cases "isLineTerminator c")
    case True
    with 2 show ?thesis by simp
  next
    case False
    define m where "m = take (Suc w) (takeWhile (\<lambda>x. \<not> isLineTerminator x) (c # cs))"
    have step: "regexMatchAll w (c # cs) = m # regexMatchAll w (drop (length m) (c # cs))"
      by (rule regexMatchAll_Cons [OF False m_def])
    have head: "m \<noteq> [] \<and> length m \<le> Suc w \<and> (\<forall>c \<in> set m. \<not> isLineTerminator c)"
      using False filter_take_takeWhile [of "\<lambda>x. \<not> isLineTerminator x" "Suc w" "c # cs"]
      by (auto simp: m_def dest: in_set_takeD set_takeWhileD)
    from 2(3) step have "l = m \<or> l \<in> set (regexMatchAll w (drop (length m) (c # cs)))"
      by simp
    then show ?thesis
      using head 2(2) [OF False m_def] by blast
  qed
qed

lemma regexMatchAll_Nil_iff:
  "regexMatchAll w s = [] \<longleftrightarrow> (\<forall>c \<in> set s. isLineTerminator c)"
proof -
  have "regexMatchAll w s = [] \<longleftrightarrow> concat (regexMatchAll w s) = []"
    using regexMatchAll_lines [of _ w s] by auto
  also have "\<dots> \<longleftrightarrow> (\<forall>c \<in> set s. isLineTerminator c)"
    by (simp add: concat_regexMatchAll filter_empty_conv)
  finally show ?thesis .
qed

lemma splitStringIntoLines_Suc:
  "unat W = Suc w \<Longrightarrow>
   splitStringIntoLines T W =
     (if \<forall>c \<in> set T. isLineTerminator c then Inl TypeError
      else Inr (join (regexMatchAll w T) ''\<newline>''))"
  using regexMatchAll_Nil_iff [of w T]
  by (cases "regexMatchAll w T") (simp_all add: splitStringIntoLines_def stringMatch_def)

text \<open>
  The lines hold no line feed, so the line feeds of the wrapper's result are exactly the
  ones \<open>join\<close> put between the lines: taking them out concatenates the lines.
\<close>

lemma filter_join_newline:
  "\<forall>l \<in> set ls. \<forall>c \<in> set l. \<not> isLineTerminator c \<Longrightarrow>
   filter (\<lambda>c. c \<noteq> CHR 0x0A) (join ls ''\<newline>'') = concat ls"
proof (induction ls "''\<newline>''" rule: join.induct)
  case 1
  show ?case by simp
next
  case (2 l)
  then show ?case by (auto simp: isLineTerminator_def filter_id_conv)
next
  case (3 l l' ls)
  then show ?case by (auto simp: isLineTerminator_def filter_id_conv)
qed

section \<open>Facts about the resolver and the router\<close>

lemma toLowerCaseChar_idem: "toLowerCaseChar (toLowerCaseChar c) = toLowerCaseChar c"
proof -
  define n where "n = (of_char c :: nat)"
  define upper where "upper k \<longleftrightarrow> (65 \<le> k \<and> k \<le> 90) \<or> (192 \<le> k \<and> k \<le> 222 \<and> k \<noteq> 215)"
    for k :: nat
  have lower: "toLowerCaseChar d = (if upper (of_char d) then char_of (of_char d + 32 :: nat) else d)"
    for d
    unfolding toLowerCaseChar_def Let_def upper_def ..
  show ?thesis
  proof (cases "upper n")
    case True
    then have "n + 32 < 256"
      unfolding upper_def by arith
    then have "(of_char (char_of (n + 32)) :: nat) = n + 32"
      by simp
    moreover from True have "\<not> upper (n + 32)"
      unfolding upper_def by arith
    ultimately have "toLowerCaseChar (char_of (n + 32)) = char_of (n + 32)"
      by (simp add: lower)
    moreover from True have "toLowerCaseChar c = char_of (n + 32)"
      by (simp add: lower n_def)
    ultimately show ?thesis by simp
  next
    case False
    then have "toLowerCaseChar c = c"
      by (simp add: lower n_def)
    then show ?thesis by simp
  qed
qed

lemma toLowerCase_idem: "toLowerCase (toLowerCase s) = toLowerCase s"
  by (simp add: toLowerCase_def toLowerCaseChar_idem)

lemma toLowerCase_gpt3_5: "toLowerCase ''gpt3_5'' = ''gpt3_5''"
  by (simp add: toLowerCase_def toLowerCaseChar_def)

lemma toLowerCase_gpt4: "toLowerCase ''gpt4'' = ''gpt4''"
  by (simp add: toLowerCase_def toLowerCaseChar_def)

lemma toLowerCase_GPT4: "toLowerCase ''GPT4'' = ''gpt4''"
  by code_simp

text \<open>
  Which characters the lower-case form maps to a given letter, digit or sign, and with that
  which strings it maps to an alias: the alias in any mix of upper and lower case.
\<close>

lemma toLowerCaseChar_letter:
  assumes "97 \<le> (of_char t :: nat)" and "(of_char t :: nat) \<le> 122"
  shows "toLowerCaseChar c = t \<longleftrightarrow> c = t \<or> c = char_of ((of_char t :: nat) - 32)"
proof -
  define n where "n = (of_char c :: nat)"
  define k where "k = (of_char t :: nat)"
  define upper where "upper m \<longleftrightarrow> (65 \<le> m \<and> m \<le> 90) \<or> (192 \<le> m \<and> m \<le> 222 \<and> m \<noteq> 215)"
    for m :: nat
  have lower: "toLowerCaseChar d = (if upper (of_char d) then char_of (of_char d + 32 :: nat) else d)"
    for d
    unfolding toLowerCaseChar_def Let_def upper_def ..
  have c: "c = char_of n" and t: "t = char_of k"
    by (simp_all add: n_def k_def)
  have small: "n < 256" "k < 256"
    by (simp_all add: n_def k_def)
  have eq: "char_of a = (char_of b :: char) \<longleftrightarrow> a = b" if "a < 256" "b < 256" for a b :: nat
    using that by (metis mod_less of_char_of)
  from assms have k: "97 \<le> k" "k \<le> 122"
    by (simp_all add: k_def)
  show ?thesis
  proof (cases "upper n")
    case True
    then have "n + 32 < 256" unfolding upper_def by arith
    with True small k have "toLowerCaseChar c = t \<longleftrightarrow> n + 32 = k"
      by (simp add: lower n_def [symmetric] t eq)
    also have "\<dots> \<longleftrightarrow> n = k - 32"
      using k by arith
    also have "\<dots> \<longleftrightarrow> c = char_of (k - 32)"
      using small k by (simp add: c eq)
    finally have "toLowerCaseChar c = t \<longleftrightarrow> c = char_of (k - 32)" .
    moreover from True k have "n \<noteq> k"
      unfolding upper_def by arith
    then have "c \<noteq> t"
      using small by (simp add: c t eq)
    ultimately show ?thesis
      by (simp add: k_def)
  next
    case False
    then have "toLowerCaseChar c = t \<longleftrightarrow> c = t"
      by (simp add: lower n_def)
    moreover from False k have "n \<noteq> k - 32"
      unfolding upper_def by arith
    then have "c \<noteq> char_of (k - 32)"
      using small k by (simp add: c eq)
    ultimately show ?thesis
      by (simp add: k_def)
  qed
qed

lemma toLowerCaseChar_other:
  assumes "(of_char t :: nat) < 65 \<or> (90 < (of_char t :: nat) \<and> (of_char t :: nat) < 97)"
  shows "toLowerCaseChar c = t \<longleftrightarrow> c = t"
proof -
  define n where "n = (of_char c :: nat)"
  define k where "k = (of_char t :: nat)"
  define upper where "upper m \<longleftrightarrow> (65 \<le> m \<and> m \<le> 90) \<or> (192 \<le> m \<and> m \<le> 222 \<and> m \<noteq> 215)"
    for m :: nat
  have lower: "toLowerCaseChar d = (if upper (of_char d) then char_of (of_char d + 32 :: nat) else d)"
    for d
    unfolding toLowerCaseChar_def Let_def upper_def ..
  have c: "c = char_of n" and t: "t = char_of k"
    by (simp_all add: n_def k_def)
  have small: "n < 256" "k < 256"
    by (simp_all add: n_def k_def)
  have eq: "char_of a = (char_of b :: char) \<longleftrightarrow> a = b" if "a < 256" "b < 256" for a b :: nat
    using that by (metis mod_less of_char_of)
  from assms have k: "k < 65 \<or> (90 < k \<and> k < 97)"
    by (simp add: k_def)
  show ?thesis
  proof (cases "upper n")
    case True
    then have "n + 32 < 256" unfolding upper_def by arith
    with True small have "toLowerCaseChar c = t \<longleftrightarrow> n + 32 = k"
      by (simp add: lower n_def [symmetric] t eq)
    moreover from True k have "n + 32 \<noteq> k" "n \<noteq> k"
      unfolding upper_def by arith+
    moreover have "c = t \<longleftrightarrow> n = k"
      using small by (simp add: c t eq)
    ultimately show ?thesis by simp
  next
    case False
    then show ?thesis
      by (simp add: lower n_def)
  qed
qed

lemma upper_codes:
  "char_of (71::nat) = CHR ''G''" "char_of (80::nat) = CHR ''P''" "char_of (84::nat) = CHR ''T''"
  by code_simp+

lemma toLowerCaseChar_g: "toLowerCaseChar c = CHR ''g'' \<longleftrightarrow> c = CHR ''g'' \<or> c = CHR ''G''"
  using toLowerCaseChar_letter [of "CHR ''g''" c] by (simp add: upper_codes)

lemma toLowerCaseChar_p: "toLowerCaseChar c = CHR ''p'' \<longleftrightarrow> c = CHR ''p'' \<or> c = CHR ''P''"
  using toLowerCaseChar_letter [of "CHR ''p''" c] by (simp add: upper_codes)

lemma toLowerCaseChar_t: "toLowerCaseChar c = CHR ''t'' \<longleftrightarrow> c = CHR ''t'' \<or> c = CHR ''T''"
  using toLowerCaseChar_letter [of "CHR ''t''" c] by (simp add: upper_codes)

lemma toLowerCaseChar_sign:
  "toLowerCaseChar c = CHR ''3'' \<longleftrightarrow> c = CHR ''3''"
  "toLowerCaseChar c = CHR ''4'' \<longleftrightarrow> c = CHR ''4''"
  "toLowerCaseChar c = CHR ''5'' \<longleftrightarrow> c = CHR ''5''"
  "toLowerCaseChar c = CHR ''_'' \<longleftrightarrow> c = CHR ''_''"
  using toLowerCaseChar_other [of "CHR ''3''" c] toLowerCaseChar_other [of "CHR ''4''" c]
    toLowerCaseChar_other [of "CHR ''5''" c] toLowerCaseChar_other [of "CHR ''_''" c]
  by simp_all

lemmas lower_chars = toLowerCaseChar_g toLowerCaseChar_p toLowerCaseChar_t toLowerCaseChar_sign



lemma toLowerCase_gpt4_variants:
  "toLowerCase ''gpt4'' = ''gpt4''" "toLowerCase ''gpT4'' = ''gpt4''"
  "toLowerCase ''gPt4'' = ''gpt4''" "toLowerCase ''gPT4'' = ''gpt4''"
  "toLowerCase ''Gpt4'' = ''gpt4''" "toLowerCase ''GpT4'' = ''gpt4''"
  "toLowerCase ''GPt4'' = ''gpt4''" "toLowerCase ''GPT4'' = ''gpt4''"
  by code_simp+

lemma toLowerCase_gpt3_5_variants:
  "toLowerCase ''gpt3_5'' = ''gpt3_5''" "toLowerCase ''gpT3_5'' = ''gpt3_5''"
  "toLowerCase ''gPt3_5'' = ''gpt3_5''" "toLowerCase ''gPT3_5'' = ''gpt3_5''"
  "toLowerCase ''Gpt3_5'' = ''gpt3_5''" "toLowerCase ''GpT3_5'' = ''gpt3_5''"
  "toLowerCase ''GPt3_5'' = ''gpt3_5''" "toLowerCase ''GPT3_5'' = ''gpt3_5''"
  by code_simp+

lemma toLowerCase_gpt4_iff:
  "toLowerCase s = ''gpt4'' \<longleftrightarrow>
     s \<in> {''gpt4'', ''gpT4'', ''gPt4'', ''gPT4'', ''Gpt4'', ''GpT4'', ''GPt4'', ''GPT4''}"
proof
  assume "toLowerCase s = ''gpt4''"
  then obtain a b c d where s: "s = [a, b, c, d]"
    and "toLowerCaseChar a = CHR ''g''" and "toLowerCaseChar b = CHR ''p''"
    and "toLowerCaseChar c = CHR ''t''" and "toLowerCaseChar d = CHR ''4''"
    unfolding toLowerCase_def by (auto simp: map_eq_Cons_conv)
  then have "a = CHR ''g'' \<or> a = CHR ''G''" and "b = CHR ''p'' \<or> b = CHR ''P''"
    and "c = CHR ''t'' \<or> c = CHR ''T''" and "d = CHR ''4''"
    by (simp_all only: lower_chars)
  then show "s \<in> {''gpt4'', ''gpT4'', ''gPt4'', ''gPT4'', ''Gpt4'', ''GpT4'', ''GPt4'', ''GPT4''}"
    unfolding s by (elim disjE) simp_all
next
  assume "s \<in> {''gpt4'', ''gpT4'', ''gPt4'', ''gPT4'', ''Gpt4'', ''GpT4'', ''GPt4'', ''GPT4''}"
  then show "toLowerCase s = ''gpt4''"
    using toLowerCase_gpt4_variants by (elim insertE emptyE) (simp_all only:)
qed

lemma toLowerCase_gpt3_5_iff:
  "toLowerCase s = ''gpt3_5'' \<longleftrightarrow>
     s \<in> {''gpt3_5'', ''gpT3_5'', ''gPt3_5'', ''gPT3_5'', ''Gpt3_5'', ''GpT3_5'', ''GPt3_5'', ''GPT3_5''}"
proof
  assume "toLowerCase s = ''gpt3_5''"
  then obtain a b c d e f where s: "s = [a, b, c, d, e, f]"
    and "toLowerCaseChar a = CHR ''g''" and "toLowerCaseChar b = CHR ''p''"
    and "toLowerCaseChar c = CHR ''t''" and "toLowerCaseChar d = CHR ''3''"
    and "toLowerCaseChar e = CHR ''_''" and "toLowerCaseChar f = CHR ''5''"
    unfolding toLowerCase_def by (auto simp: map_eq_Cons_conv)
  then have "a = CHR ''g'' \<or> a = CHR ''G''" and "b = CHR ''p'' \<or> b = CHR ''P''"
    and "c = CHR ''t'' \<or> c = CHR ''T''" and "d = CHR ''3''" and "e = CHR ''_''" and "f = CHR ''5''"
    by (simp_all only: lower_chars)
  then show "s \<in> {''gpt3_5'', ''gpT3_5'', ''gPt3_5'', ''gPT3_5'', ''Gpt3_5'', ''GpT3_5'',
      ''GPt3_5'', ''GPT3_5''}"
    unfolding s by (elim disjE) simp_all
next
  assume "s \<in> {''gpt3_5'', ''gpT3_5'', ''gPt3_5'', ''gPT3_5'', ''Gpt3_5'', ''GpT3_5'',
      ''GPt3_5'', ''GPT3_5''}"
  then show "toLowerCase s = ''gpt3_5''"
    using toLowerCase_gpt3_5_variants by (elim insertE emptyE) (simp_all only:)
qed

lemma startsWith_prefix: "startsWith s p \<longleftrightarrow> prefix p s"
  unfolding startsWith_def
  by (metis append_eq_conv_conj prefix_def)

lemma endsWith_suffix: "endsWith s p \<longleftrightarrow> suffix p s"
proof
  assume "endsWith s p"
  then have "drop (length s - length p) s = p"
    by (simp add: endsWith_def)
  then show "suffix p s"
    by (metis suffix_drop)
next
  assume "suffix p s"
  then obtain r where "s = r @ p"
    by (auto simp: suffix_def)
  then show "endsWith s p"
    by (simp add: endsWith_def)
qed

lemma main_single:
  "main [s] w =
     (if startsWith s ''https://www.youtube.com/'' then ([DownloadAudioFromYouTube s], w)
      else if endsWith s ''.mp3'' then ([TranscribeLargeAudioFile s], w)
      else ([], consoleError ''Invalid input. Please provide a YouTube link or an mp3 file.'' w))"
  by simp

lemma main_Cons:
  "main (s # rest) w =
       (case main [s] w of (first, w') \<Rightarrow>
          (case main rest w' of (others, w'') \<Rightarrow> (first @ others, w'')))"
  unfolding main_single by (simp split: prod.splits)

lemma main_files: "files (snd (main inputs w)) = files w"
proof (induction inputs arbitrary: w)
  case Nil
  show ?case by simp
next
  case (Cons s rest)
  show ?case
    using Cons [of w]
      Cons [of "consoleError ''Invalid input. Please provide a YouTube link or an mp3 file.'' w"]
    by (auto simp: consoleError_def split: prod.splits)
qed

section \<open>Facts about the chunk names and the cleanup\<close>

text \<open>Different counters give different chunk names: the digits can be read back.\<close>

lemma digitsValue_snoc: "digitsValue (s @ [c]) = 10 * digitsValue s + (of_char c - 48)"
  by (simp add: digitsValue_def)

lemma of_char_digitChar: "d < 10 \<Longrightarrow> (of_char (digitChar d) :: nat) = 48 + d"
  by (simp add: digitChar_def)

lemma digitsValue_toString: "digitsValue (toString n) = n"
proof (induction n rule: toString.induct)
  case (1 n)
  show ?case
  proof (cases "n < 10")
    case True
    then show ?thesis
      by (simp add: toString.simps [of n] digitsValue_def of_char_digitChar)
  next
    case False
    with 1 have "digitsValue (toString (n div 10)) = n div 10"
      by simp
    with False show ?thesis
      by (simp add: toString.simps [of n] digitsValue_snoc of_char_digitChar)
  qed
qed

lemma digitsValue_zeros: "digitsValue (replicate k (CHR ''0'') @ s) = digitsValue s"
proof -
  have "foldl (\<lambda>acc c. 10 * acc + (of_char c - 48)) (0::nat) (replicate k (CHR ''0'')) = 0"
    by (induction k) simp_all
  then show ?thesis
    by (simp add: digitsValue_def)
qed

lemma digitsValue_padStart: "digitsValue (padStart (toString n) 3 (CHR ''0'')) = n"
  by (simp add: padStart_def digitsValue_zeros digitsValue_toString)

lemma chunkFileName_inj: "chunkFileName i = chunkFileName j \<Longrightarrow> i = j"
proof -
  assume "chunkFileName i = chunkFileName j"
  then have "padStart (toString i) 3 (CHR ''0'') = padStart (toString j) 3 (CHR ''0'')"
    by (simp add: chunkFileName_def)
  then have "digitsValue (padStart (toString i) 3 (CHR ''0''))
      = digitsValue (padStart (toString j) 3 (CHR ''0''))"
    by simp
  then show "i = j"
    by (simp only: digitsValue_padStart)
qed

lemma chunkFileName_eq_iff [simp]: "chunkFileName i = chunkFileName j \<longleftrightarrow> i = j"
  using chunkFileName_inj by blast

lemma existsSync_remove:
  "existsSync (filter (\<lambda>entry. fst entry \<noteq> p) fs) q \<longleftrightarrow> q \<noteq> p \<and> existsSync fs q"
  by (auto simp: existsSync_def)

lemma existsSync_filter_notin:
  "existsSync (filter (\<lambda>entry. fst entry \<notin> S) fs) q \<longleftrightarrow> q \<notin> S \<and> existsSync fs q"
  by (auto simp: existsSync_def)

lemma readFile_remove:
  "readFile (filter (\<lambda>entry. fst entry \<noteq> p) fs) q = (if q = p then None else readFile fs q)"
  unfolding readFile_def by (induction fs) auto

lemma readFile_filter_notin:
  "readFile (filter (\<lambda>entry. fst entry \<notin> S) fs) q = (if q \<in> S then None else readFile fs q)"
  unfolding readFile_def by (induction fs) auto

lemma cleanupLoop_gap:
  assumes "\<forall>j. i \<le> j \<and> j < N \<longrightarrow> existsSync fs (chunkFileName j)"
    and "\<not> existsSync fs (chunkFileName N)" and "i \<le> N"
  shows "cleanupLoop i (chunkFileName i) fs
     = Inr (filter (\<lambda>entry. fst entry \<notin> chunkFileName ` {i..<N}) fs)"
  using assms
proof (induction "N - i" arbitrary: i fs)
  case 0
  then have "i = N" by simp
  with 0 show ?case
    by (simp add: cleanupLoop.simps [of N "chunkFileName N" fs])
next
  case (Suc d)
  then have less: "i < N" by simp
  define fs' where "fs' = filter (\<lambda>entry. fst entry \<noteq> chunkFileName i) fs"
  from Suc.prems less have here: "existsSync fs (chunkFileName i)"
    by simp
  have step: "cleanupLoop i (chunkFileName i) fs = cleanupLoop (Suc i) (chunkFileName (Suc i)) fs'"
    using here by (simp add: cleanupLoop.simps [of i "chunkFileName i" fs] unlinkSync_def fs'_def)
  have "cleanupLoop (Suc i) (chunkFileName (Suc i)) fs'
      = Inr (filter (\<lambda>entry. fst entry \<notin> chunkFileName ` {Suc i..<N}) fs')"
  proof (rule Suc.hyps(1))
    show "d = N - Suc i" using Suc.hyps(2) by simp
    show "\<forall>j. Suc i \<le> j \<and> j < N \<longrightarrow> existsSync fs' (chunkFileName j)"
      using Suc.prems(1) by (auto simp: fs'_def existsSync_remove)
    show "\<not> existsSync fs' (chunkFileName N)"
      using Suc.prems(2) by (simp add: fs'_def existsSync_remove)
    show "Suc i \<le> N" using less by simp
  qed
  moreover have "filter (\<lambda>entry. fst entry \<notin> chunkFileName ` {Suc i..<N}) fs'
      = filter (\<lambda>entry. fst entry \<notin> chunkFileName ` {i..<N}) fs"
  proof -
    have "{i..<N} = insert i {Suc i..<N}"
      using less by auto
    then show ?thesis
      by (auto simp: fs'_def intro!: filter_cong)
  qed
  ultimately show ?case using step by simp
qed

lemma first_gap_exists:
  "\<exists>N. (\<forall>i<N. existsSync fs (chunkFileName i)) \<and> \<not> existsSync fs (chunkFileName N)"
proof -
  have "finite (chunkFileName -` (fst ` set fs))"
    by (rule finite_vimageI) (simp_all add: inj_on_def)
  then have "\<exists>n. n \<notin> chunkFileName -` (fst ` set fs)"
    using ex_new_if_finite infinite_UNIV_nat by blast
  then have some: "\<exists>n. \<not> existsSync fs (chunkFileName n)"
    by (simp add: existsSync_def)
  define N where "N = (LEAST n. \<not> existsSync fs (chunkFileName n))"
  from some have "\<not> existsSync fs (chunkFileName N)"
    unfolding N_def by (rule LeastI_ex)
  moreover have "\<forall>i<N. existsSync fs (chunkFileName i)"
    unfolding N_def using not_less_Least by blast
  ultimately show ?thesis by blast
qed

lemma cleanupLoop_only_removes:
  "cleanupLoop i fileName fs = Inr fs' \<Longrightarrow> readFile fs' path = Some content \<Longrightarrow>
   readFile fs path = Some content"
proof (induction i fileName fs rule: cleanupLoop.induct)
  case (1 i fileName fs)
  show ?case
  proof (cases "existsSync fs fileName")
    case False
    with 1(2,3) show ?thesis
      by (simp add: cleanupLoop.simps [of i fileName fs])
  next
    case True
    define fs1 where "fs1 = filter (\<lambda>entry. fst entry \<noteq> fileName) fs"
    from True have gone: "unlinkSync fs fileName = Inr fs1"
      by (simp add: unlinkSync_def fs1_def)
    with True 1(2) have "cleanupLoop (Suc i) (chunkFileName (Suc i)) fs1 = Inr fs'"
      by (simp add: cleanupLoop.simps [of i fileName fs])
    then have "readFile fs1 path = Some content"
      using 1(1) [OF True gone] 1(3) by simp
    then show ?thesis
      by (simp add: fs1_def readFile_remove split: if_splits)
  qed
qed

lemma cleanupLoop_returns: "\<exists>fs'. cleanupLoop i fileName fs = Inr fs'"
proof (induction i fileName fs rule: cleanupLoop.induct)
  case (1 i fileName fs)
  show ?case
  proof (cases "existsSync fs fileName")
    case False
    then show ?thesis
      by (simp add: cleanupLoop.simps [of i fileName fs])
  next
    case True
    define fs1 where "fs1 = filter (\<lambda>entry. fst entry \<noteq> fileName) fs"
    from True have gone: "unlinkSync fs fileName = Inr fs1"
      by (simp add: unlinkSync_def fs1_def)
    from 1 [OF True gone] True gone show ?thesis
      by (simp add: cleanupLoop.simps [of i fileName fs])
  qed
qed

lemma chunkFileName_0: "chunkFileName 0 = ''out000.mp3''"
  by code_simp

lemma chunkFileName_1: "chunkFileName (Suc 0) = ''out001.mp3''"
  by code_simp

lemma chunkFileName_2: "chunkFileName (Suc (Suc 0)) = ''out002.mp3''"
  by code_simp

section \<open>Facts about the scan\<close>

text \<open>The scan writes no file and sends nothing to the chat backend.\<close>

lemma transcribeSmallAudioFile_world:
  "transcribeSmallAudioFile B f w = (r, w') \<Longrightarrow>
   files w' = files w \<and> chatRequests w' = chatRequests w
   \<and> transcriptionRequests w' = transcriptionRequests w @ [f]"
  by (auto simp: transcribeSmallAudioFile_def Let_def consoleError_def split: reply.splits)

lemma transcribeSmallAudioFile_failure:
  "\<forall>t. createTranscription B (length (transcriptionRequests w)) f \<noteq> Replied (Some t) \<Longrightarrow>
   fst (transcribeSmallAudioFile B f w) = None"
  by (auto simp: transcribeSmallAudioFile_def Let_def split: reply.splits)

lemma scanLoop_frame:
  "scanLoop B fuel i f agg w = (r, w') \<Longrightarrow>
   files w' = files w \<and> chatRequests w' = chatRequests w"
proof (induction fuel arbitrary: i f agg w)
  case 0
  then show ?case by simp
next
  case (Suc fuel)
  show ?case
  proof (cases "existsSync (files w) f")
    case False
    with Suc.prems show ?thesis by simp
  next
    case True
    obtain t w1 where small:
      "transcribeSmallAudioFile B f (consoleLog (''Processing file: '' @ quoted f) w) = (t, w1)"
      by (cases "transcribeSmallAudioFile B f (consoleLog (''Processing file: '' @ quoted f) w)")
    from transcribeSmallAudioFile_world [OF small]
    have w1: "files w1 = files w" "chatRequests w1 = chatRequests w"
      by (simp_all add: consoleLog_def)
    show ?thesis
    proof (cases t)
      case None
      with Suc.prems True small
      have "scanLoop B fuel i f agg (consoleError (''Failed to transcribe '' @ quoted f) w1) = (r, w')"
        by simp
      from Suc.IH [OF this] w1 show ?thesis
        by (simp add: consoleError_def)
    next
      case (Some answer)
      with Suc.prems True small
      have "scanLoop B fuel (Suc i) (chunkFileName (Suc i)) (agg @ answer @ ''\<newline>\<newline>'')
              (consoleLog (''Transcription for '' @ quoted f @ '' added'') w1) = (r, w')"
        by simp
      from Suc.IH [OF this] w1 show ?thesis
        by (simp add: consoleLog_def)
    qed
  qed
qed

text \<open>The turn of the loop on a failed transcription: the same file, with less fuel.\<close>

lemma scanLoop_failure_step:
  assumes "existsSync (files w) f"
    and "\<forall>t. createTranscription B (length (transcriptionRequests w)) f \<noteq> Replied (Some t)"
  shows "\<exists>w1. scanLoop B (Suc fuel) i f agg w = scanLoop B fuel i f agg w1
           \<and> files w1 = files w \<and> chatRequests w1 = chatRequests w
           \<and> transcriptionRequests w1 = transcriptionRequests w @ [f]"
proof -
  define w0 where "w0 = consoleLog (''Processing file: '' @ quoted f) w"
  obtain t w1 where small: "transcribeSmallAudioFile B f w0 = (t, w1)"
    by (cases "transcribeSmallAudioFile B f w0")
  have "fst (transcribeSmallAudioFile B f w0) = None"
    using assms(2) by (intro transcribeSmallAudioFile_failure) (simp add: w0_def consoleLog_def)
  with small have t: "t = None" by simp
  from transcribeSmallAudioFile_world [OF small]
  have w1: "files w1 = files w" "chatRequests w1 = chatRequests w"
    "transcriptionRequests w1 = transcriptionRequests w @ [f]"
    by (simp_all add: w0_def consoleLog_def)
  have "scanLoop B (Suc fuel) i f agg w
      = scanLoop B fuel i f agg (consoleError (''Failed to transcribe '' @ quoted f) w1)"
    using assms(1) small t by (simp add: w0_def)
  with w1 show ?thesis
    by (intro exI [of _ "consoleError (''Failed to transcribe '' @ quoted f) w1"])
       (simp add: consoleError_def)
qed

lemma scanLoop_stuck:
  assumes "existsSync (files w) f"
    and "\<forall>k t. createTranscription B k f \<noteq> Replied (Some t)"
  shows "\<exists>w'. scanLoop B fuel i f agg w = (None, w') \<and> files w' = files w
           \<and> chatRequests w' = chatRequests w
           \<and> transcriptionRequests w' = transcriptionRequests w @ replicate fuel f"
  using assms(1)
proof (induction fuel arbitrary: w)
  case 0
  show ?case by simp
next
  case (Suc fuel)
  from scanLoop_failure_step [of w f B fuel i agg] Suc.prems assms(2)
  obtain w1 where step: "scanLoop B (Suc fuel) i f agg w = scanLoop B fuel i f agg w1"
    and w1: "files w1 = files w" "chatRequests w1 = chatRequests w"
      "transcriptionRequests w1 = transcriptionRequests w @ [f]"
    by blast
  from Suc.prems w1 have "existsSync (files w1) f" by simp
  from Suc.IH [OF this] obtain w' where "scanLoop B fuel i f agg w1 = (None, w')"
    and "files w' = files w1" and "chatRequests w' = chatRequests w1"
    and "transcriptionRequests w' = transcriptionRequests w1 @ replicate fuel f"
    by blast
  with step w1 show ?case
    by (simp add: replicate_app_Cons_same)
qed

lemma scanLoop_console:
  "scanLoop B fuel i f agg w = (r, w') \<Longrightarrow> l \<in> set (console w') \<Longrightarrow>
   l \<in> set (console w) \<or> scanLine l"
proof (induction fuel arbitrary: i f agg w)
  case 0
  then show ?case by simp
next
  case (Suc fuel)
  show ?case
  proof (cases "existsSync (files w) f")
    case False
    with Suc.prems show ?thesis by simp
  next
    case True
    define w0 where "w0 = consoleLog (''Processing file: '' @ quoted f) w"
    obtain t w1 where small: "transcribeSmallAudioFile B f w0 = (t, w1)"
      by (cases "transcribeSmallAudioFile B f w0")
    have c1: "l' \<in> set (console w1) \<Longrightarrow> l' \<in> set (console w) \<or> scanLine l'" for l'
      using small
      by (auto simp: transcribeSmallAudioFile_def Let_def consoleError_def consoleLog_def w0_def
          scanLine_def split: reply.splits)
    show ?thesis
    proof (cases t)
      case None
      with Suc.prems(1) True small
      have "scanLoop B fuel i f agg (consoleError (''Failed to transcribe '' @ quoted f) w1) = (r, w')"
        by (simp add: w0_def)
      from Suc.IH [OF this Suc.prems(2)] c1 show ?thesis
        by (auto simp: consoleError_def scanLine_def)
    next
      case (Some answer)
      with Suc.prems(1) True small
      have "scanLoop B fuel (Suc i) (chunkFileName (Suc i)) (agg @ answer @ ''\<newline>\<newline>'')
              (consoleLog (''Transcription for '' @ quoted f @ '' added'') w1) = (r, w')"
        by (simp add: w0_def)
      from Suc.IH [OF this Suc.prems(2)] c1 show ?thesis
        by (auto simp: consoleLog_def scanLine_def)
    qed
  qed
qed

section \<open>Facts about the rest of the aggregator\<close>

lemma splitAudioFile_chat: "chatRequests (splitAudioFile B a w) = chatRequests w"
  by (simp add: splitAudioFile_def Let_def consoleError_def split: prod.splits option.splits)

lemma cleanupAudioChunks_world:
  "\<exists>w'. cleanupAudioChunks w = Inr w' \<and> chatRequests w' = chatRequests w
     \<and> console w' = console w
     \<and> (\<forall>path content. readFile (files w') path = Some content
           \<longrightarrow> readFile (files w) path = Some content)"
proof -
  obtain fs' where run: "cleanupLoop 0 (chunkFileName 0) (files w) = Inr fs'"
    using cleanupLoop_returns by blast
  then have "cleanupAudioChunks w = Inr (w\<lparr>files := fs'\<rparr>)"
    by (simp add: cleanupAudioChunks_def)
  moreover have "\<forall>path content. readFile fs' path = Some content
      \<longrightarrow> readFile (files w) path = Some content"
    using cleanupLoop_only_removes [OF run] by blast
  ultimately show ?thesis by simp
qed

lemma readFile_writeFileSync:
  "readFile (writeFileSync fs p d) q = (if q = p then Some d else readFile fs q)"
  by (simp add: writeFileSync_def readFile_def) (simp add: readFile_remove [unfolded readFile_def])

text \<open>A run on \<open>talk.mp3\<close> with every transcription answered and no summary asked for.\<close>

lemma run_returns:
  "fst (transcribeLargeAudioFile (answering helloWorld) (cli False) 3 ''talk.mp3'' talkWorld) = Returned"
  by code_simp

lemma run_transcript:
  "readFile (files (snd (transcribeLargeAudioFile (answering helloWorld) (cli False) 3 ''talk.mp3'' talkWorld)))
     ''talk_transcript.txt'' = Some ''Hello world\<newline>Hello world''"
  by code_simp

lemma split_no_summary:
  "readFile (files (splitAudioFile (answering helloWorld) ''talk.mp3'' talkWorld)) ''talk_summary.txt'' = None"
  by code_simp

lemma summary_name: "stringReplace ''talk.mp3'' ''.mp3'' '''' @ ''_summary.txt'' = ''talk_summary.txt''"
  by code_simp

section \<open>Facts about runs on the example directory\<close>

lemma scanLoop_success_step:
  assumes "existsSync (files w) f"
    and "createTranscription B (length (transcriptionRequests w)) f = Replied (Some t)"
  shows "\<exists>w1. scanLoop B (Suc fuel) i f agg w
             = scanLoop B fuel (Suc i) (chunkFileName (Suc i)) (agg @ t @ ''\<newline>\<newline>'') w1
           \<and> files w1 = files w \<and> chatRequests w1 = chatRequests w
           \<and> transcriptionRequests w1 = transcriptionRequests w @ [f]"
proof -
  define w0 where "w0 = consoleLog (''Processing file: '' @ quoted f) w"
  have small: "transcribeSmallAudioFile B f w0
      = (Some t, w0\<lparr>transcriptionRequests := transcriptionRequests w0 @ [f]\<rparr>)"
    using assms(2) by (simp add: transcribeSmallAudioFile_def Let_def w0_def consoleLog_def)
  define w1 where "w1 = consoleLog (''Transcription for '' @ quoted f @ '' added'')
      (w0\<lparr>transcriptionRequests := transcriptionRequests w0 @ [f]\<rparr>)"
  have "scanLoop B (Suc fuel) i f agg w
      = scanLoop B fuel (Suc i) (chunkFileName (Suc i)) (agg @ t @ ''\<newline>\<newline>'') w1"
    using assms(1) small by (simp add: w0_def w1_def)
  moreover have "files w1 = files w \<and> chatRequests w1 = chatRequests w
      \<and> transcriptionRequests w1 = transcriptionRequests w @ [f]"
    by (simp add: w1_def w0_def consoleLog_def)
  ultimately show ?thesis by blast
qed

lemma talk_start:
  "files (consoleLog ''\<newline>'' (splitAudioFile (answering speech) ''talk.mp3'' talkWorld))
     = [(''out001.mp3'', ''chunk 1''), (''out000.mp3'', ''chunk 0''), (''talk.mp3'', ''audio'')]"
  "transcriptionRequests (consoleLog ''\<newline>'' (splitAudioFile (answering speech) ''talk.mp3'' talkWorld)) = []"
  "console (consoleLog ''\<newline>'' (splitAudioFile (answering speech) ''talk.mp3'' talkWorld)) = [Log ''\<newline>'']"
  by (simp_all add: consoleLog_def splitAudioFile_def answering_def twoChunks_def talkWorld_def
      writeFileSync_def chunkFileName_0 chunkFileName_1)

lemma transcribeLargeAudioFile_pending:
  "scanLoop B fuel 0 (chunkFileName 0) '''' (consoleLog ''\<newline>'' (splitAudioFile B a w0)) = (None, w')
   \<Longrightarrow> transcribeLargeAudioFile B A fuel a w0 = (Pending, w')"
  by (simp add: transcribeLargeAudioFile_def)

text \<open>A run whose first chunk is rejected every time.\<close>

lemma first_chunk_rejected:
  assumes "\<forall>k t. speech k (chunkFileName 0) \<noteq> Replied (Some t)"
  shows "\<exists>w'. transcribeLargeAudioFile (answering speech) A fuel ''talk.mp3'' talkWorld = (Pending, w')
    \<and> files w' = [(''out001.mp3'', ''chunk 1''), (''out000.mp3'', ''chunk 0''), (''talk.mp3'', ''audio'')]
    \<and> transcriptionRequests w' = replicate fuel ''out000.mp3''
    \<and> (\<forall>l \<in> set (console w'). l = Log ''\<newline>'' \<or> scanLine l)"
proof -
  define B where "B = answering speech"
  define ws where "ws = consoleLog ''\<newline>'' (splitAudioFile B ''talk.mp3'' talkWorld)"
  have ws: "files ws = [(''out001.mp3'', ''chunk 1''), (''out000.mp3'', ''chunk 0''),
      (''talk.mp3'', ''audio'')]" "transcriptionRequests ws = []" "console ws = [Log ''\<newline>'']"
    by (simp_all add: ws_def B_def talk_start)
  have "existsSync (files ws) (chunkFileName 0)"
    by (simp add: ws existsSync_def chunkFileName_0)
  moreover have "\<forall>k t. createTranscription B k (chunkFileName 0) \<noteq> Replied (Some t)"
    using assms by (simp add: B_def answering_def)
  ultimately obtain w' where scan: "scanLoop B fuel 0 (chunkFileName 0) '''' ws = (None, w')"
    and w': "files w' = files ws"
      "transcriptionRequests w' = transcriptionRequests ws @ replicate fuel (chunkFileName 0)"
    using scanLoop_stuck [of ws "chunkFileName 0" B fuel 0 "''''"] by blast
  from scan have run: "transcribeLargeAudioFile B A fuel ''talk.mp3'' talkWorld = (Pending, w')"
    unfolding ws_def by (rule transcribeLargeAudioFile_pending)
  have "\<forall>l \<in> set (console w'). l = Log ''\<newline>'' \<or> scanLine l"
    using scanLoop_console [OF scan] ws(3) by auto
  with run w' ws show ?thesis
    by (simp add: B_def chunkFileName_0)
qed

section \<open>The scan when every request is answered, and the run without chunks\<close>

lemma scanLoop_all_answered:
  assumes "\<forall>k j. \<exists>t. createTranscription B k (chunkFileName j) = Replied (Some t)"
    and "\<forall>j. i \<le> j \<and> j < N \<longrightarrow> existsSync (files w) (chunkFileName j)"
    and "\<not> existsSync (files w) (chunkFileName N)"
    and "i \<le> N" and "N - i < fuel"
  shows "\<exists>w'. scanLoop B fuel i (chunkFileName i) agg w
           = (Some (agg @ concat (map (\<lambda>j. answerText (createTranscription B
                  (length (transcriptionRequests w) + (j - i)) (chunkFileName j)) @ ''\<newline>\<newline>'')
                [i..<N])), w')
         \<and> transcriptionRequests w' = transcriptionRequests w @ map chunkFileName [i..<N]
         \<and> files w' = files w \<and> chatRequests w' = chatRequests w"
  using assms(2-)
proof (induction "N - i" arbitrary: i agg w fuel)
  case 0
  then have "i = N" by simp
  moreover from 0 obtain m where "fuel = Suc m"
    by (cases fuel) auto
  ultimately show ?case
    using 0 by simp
next
  case (Suc d)
  then have less: "i < N" by simp
  from Suc.prems obtain m where fuel: "fuel = Suc m"
    by (cases fuel) auto
  from Suc.prems less have here: "existsSync (files w) (chunkFileName i)"
    by simp
  from assms(1) obtain t where t: "createTranscription B (length (transcriptionRequests w))
      (chunkFileName i) = Replied (Some t)"
    by blast
  from scanLoop_success_step [OF here t, of m i agg]
  obtain w1 where step: "scanLoop B (Suc m) i (chunkFileName i) agg w
        = scanLoop B m (Suc i) (chunkFileName (Suc i)) (agg @ t @ ''\<newline>\<newline>'') w1"
    and w1: "files w1 = files w" "chatRequests w1 = chatRequests w"
      "transcriptionRequests w1 = transcriptionRequests w @ [chunkFileName i]"
    by blast
  have "\<exists>w'. scanLoop B m (Suc i) (chunkFileName (Suc i)) (agg @ t @ ''\<newline>\<newline>'') w1
           = (Some ((agg @ t @ ''\<newline>\<newline>'') @ concat (map (\<lambda>j. answerText (createTranscription B
                  (length (transcriptionRequests w1) + (j - Suc i)) (chunkFileName j)) @ ''\<newline>\<newline>'')
                [Suc i..<N])), w')
         \<and> transcriptionRequests w' = transcriptionRequests w1 @ map chunkFileName [Suc i..<N]
         \<and> files w' = files w1 \<and> chatRequests w' = chatRequests w1"
  proof (rule Suc.hyps(1))
    show "d = N - Suc i" using Suc.hyps(2) by simp
    show "\<forall>j. Suc i \<le> j \<and> j < N \<longrightarrow> existsSync (files w1) (chunkFileName j)"
      using Suc.prems(1) w1 by simp
    show "\<not> existsSync (files w1) (chunkFileName N)"
      using Suc.prems(2) w1 by simp
    show "Suc i \<le> N" using less by simp
    show "N - Suc i < m" using Suc.prems(4) fuel less by arith
  qed
  then obtain w' where rest: "scanLoop B m (Suc i) (chunkFileName (Suc i)) (agg @ t @ ''\<newline>\<newline>'') w1
           = (Some ((agg @ t @ ''\<newline>\<newline>'') @ concat (map (\<lambda>j. answerText (createTranscription B
                  (length (transcriptionRequests w1) + (j - Suc i)) (chunkFileName j)) @ ''\<newline>\<newline>'')
                [Suc i..<N])), w')"
    and w': "transcriptionRequests w' = transcriptionRequests w1 @ map chunkFileName [Suc i..<N]"
      "files w' = files w1" "chatRequests w' = chatRequests w1"
    by blast
  have same: "map (\<lambda>j. answerText (createTranscription B
        (length (transcriptionRequests w1) + (j - Suc i)) (chunkFileName j)) @ ''\<newline>\<newline>'') [Suc i..<N]
      = map (\<lambda>j. answerText (createTranscription B
        (length (transcriptionRequests w) + (j - i)) (chunkFileName j)) @ ''\<newline>\<newline>'') [Suc i..<N]"
  proof (rule map_cong [OF refl])
    fix j assume "j \<in> set [Suc i..<N]"
    then have "Suc i \<le> j"
      by simp
    then have "Suc (j - Suc i) = j - i"
      by arith
    then have "length (transcriptionRequests w1) + (j - Suc i) = length (transcriptionRequests w) + (j - i)"
      unfolding w1 by simp
    then show "answerText (createTranscription B
        (length (transcriptionRequests w1) + (j - Suc i)) (chunkFileName j)) @ ''\<newline>\<newline>''
      = answerText (createTranscription B
        (length (transcriptionRequests w) + (j - i)) (chunkFileName j)) @ ''\<newline>\<newline>''"
      by simp
  qed
  have upt: "[i..<N] = i # [Suc i..<N]"
    using less by (rule upt_conv_Cons)
  have "scanLoop B fuel i (chunkFileName i) agg w
      = (Some (agg @ concat (map (\<lambda>j. answerText (createTranscription B
                  (length (transcriptionRequests w) + (j - i)) (chunkFileName j)) @ ''\<newline>\<newline>'')
                [i..<N])), w')"
    unfolding fuel step rest same upt by (simp add: t answerText_def)
  moreover have "transcriptionRequests w' = transcriptionRequests w @ map chunkFileName [i..<N]"
    unfolding upt by (simp add: w' w1)
  ultimately show ?case
    using w' w1 by simp
qed

lemma cleanupAudioChunks_no_chunk:
  "\<not> existsSync (files w) (chunkFileName 0) \<Longrightarrow> cleanupAudioChunks w = Inr w"
  by (simp add: cleanupAudioChunks_def cleanupLoop.simps [of 0 "chunkFileName 0" "files w"])

lemma no_chunks_reported:
  assumes "\<not> existsSync (files (splitAudioFile B a w0)) (chunkFileName 0)" and "0 < fuel"
  shows "transcribeLargeAudioFile B A fuel a w0
     = (Returned, consoleError ''No transcriptions were processed''
                    (consoleLog ''\<newline>'' (splitAudioFile B a w0)))"
proof -
  define ws where "ws = consoleLog ''\<newline>'' (splitAudioFile B a w0)"
  from assms(1) have gone: "\<not> existsSync (files ws) (chunkFileName 0)"
    by (simp add: ws_def consoleLog_def)
  from assms(2) obtain m where "fuel = Suc m"
    by (cases fuel) auto
  with gone have "scanLoop B fuel 0 (chunkFileName 0) '''' ws = (Some '''', ws)"
    by simp
  moreover from gone have "cleanupAudioChunks ws = Inr ws"
    by (rule cleanupAudioChunks_no_chunk)
  ultimately show ?thesis
    by (simp add: transcribeLargeAudioFile_def ws_def)
qed

section \<open>The claims\<close>

subsection \<open>C2: joining the wrapped lines again\<close>

text \<open>
  Claim C2 says that for every input \<open>T\<close> and every positive width \<open>W\<close> the lines of the
  wrapper, concatenated, are \<open>T\<close> exactly. The wrapper's own comment promises as much
  (it returns ``the input string split into lines''), the aggregator separates the chunks
  by the two line feeds it appends to each transcription, and the older variant of the
  script wrote the aggregated text as it was. But the dot of the regular expression does
  not match a line terminator, so the line terminators of \<open>T\<close> are in no line and are
  lost. The theorem evaluates the wrapper on what the aggregator passes in: the text of
  one chunk transcribed to \<open>Hello world\<close> comes back as the single line
  \<open>Hello world\<close>, and the text of two chunks comes back with one line feed where two
  were put, so the blank line between the chunks is gone.
\<close>

theorem C2_separators_dropped:
  "regexMatchAll 79 ''Hello world\<newline>\<newline>'' = [''Hello world'']
   \<and> splitStringIntoLines ''Hello world\<newline>\<newline>'' 80 = Inr ''Hello world''
   \<and> concat [''Hello world''] \<noteq> ''Hello world\<newline>\<newline>''
   \<and> splitStringIntoLines ''Hello\<newline>\<newline>world\<newline>\<newline>'' 80 = Inr ''Hello\<newline>world''"
  by (simp add: splitStringIntoLines_def stringMatch_def isLineTerminator_def)

subsection \<open>C9: where the wrapper throws\<close>




subsection \<open>C3: the resolver on aliases and on other strings\<close>

text \<open>
  Claim C3 says that the resolver returns the canonical identifier on the aliases
  \<open>gpt3_5\<close> and \<open>gpt4\<close> and throws on every other string. The resolver compares the
  lower-case form of its input, so a string that is neither alias can resolve:
  \<open>GPT4\<close> gives \<open>gpt-4\<close>.
\<close>

theorem C3_counterexample:
  "''GPT4'' \<noteq> ''gpt3_5'' \<and> ''GPT4'' \<noteq> ''gpt4'' \<and> getChatModelFromString ''GPT4'' = Inr GPT4"
  by (simp add: getChatModelFromString_def Let_def toLowerCase_GPT4)

text \<open>
  Claim C3, amended: the resolver returns \<open>gpt-3.5-turbo\<close> on \<open>gpt3_5\<close> and \<open>gpt-4\<close> on
  \<open>gpt4\<close>; it returns a model exactly when the lower-case form of its input is that
  model's alias, that is, when the input is the alias in any mix of upper and lower case;
  and it throws the unsupported-model error, never a default, if and only if the
  lower-case form of its input is neither alias.
\<close>

theorem C3_resolver:
  "getChatModelFromString ''gpt3_5'' = Inr GPT3_5 \<and> chatModelValue GPT3_5 = ''gpt-3.5-turbo''
   \<and> getChatModelFromString ''gpt4'' = Inr GPT4 \<and> chatModelValue GPT4 = ''gpt-4''
   \<and> (getChatModelFromString s = Inr GPT3_5 \<longleftrightarrow> toLowerCase s = ''gpt3_5'')
   \<and> (getChatModelFromString s = Inr GPT4 \<longleftrightarrow> toLowerCase s = ''gpt4'')
   \<and> (getChatModelFromString s = Inl (unsupportedModel s)
        \<longleftrightarrow> toLowerCase s \<noteq> ''gpt3_5'' \<and> toLowerCase s \<noteq> ''gpt4'')
   \<and> ((\<exists>e. getChatModelFromString s = Inl e)
        \<longleftrightarrow> toLowerCase s \<noteq> ''gpt3_5'' \<and> toLowerCase s \<noteq> ''gpt4'')
   \<and> (toLowerCase s = ''gpt3_5''
        \<longleftrightarrow> s \<in> {''gpt3_5'', ''gpT3_5'', ''gPt3_5'', ''gPT3_5'',
                 ''Gpt3_5'', ''GpT3_5'', ''GPt3_5'', ''GPT3_5''})
   \<and> (toLowerCase s = ''gpt4''
        \<longleftrightarrow> s \<in> {''gpt4'', ''gpT4'', ''gPt4'', ''gPT4'', ''Gpt4'', ''GpT4'', ''GPt4'', ''GPT4''})"
proof -
  have at_aliases: "getChatModelFromString ''gpt3_5'' = Inr GPT3_5"
    "chatModelValue GPT3_5 = ''gpt-3.5-turbo''"
    "getChatModelFromString ''gpt4'' = Inr GPT4" "chatModelValue GPT4 = ''gpt-4''"
    by (simp_all add: getChatModelFromString_def Let_def toLowerCase_gpt3_5 toLowerCase_gpt4)
  have switch: "getChatModelFromString s = Inr GPT3_5 \<longleftrightarrow> toLowerCase s = ''gpt3_5''"
    "getChatModelFromString s = Inr GPT4 \<longleftrightarrow> toLowerCase s = ''gpt4''"
    "getChatModelFromString s = Inl (unsupportedModel s)
        \<longleftrightarrow> toLowerCase s \<noteq> ''gpt3_5'' \<and> toLowerCase s \<noteq> ''gpt4''"
    "(\<exists>e. getChatModelFromString s = Inl e)
        \<longleftrightarrow> toLowerCase s \<noteq> ''gpt3_5'' \<and> toLowerCase s \<noteq> ''gpt4''"
    by (simp_all add: getChatModelFromString_def Let_def)
  show ?thesis
    using at_aliases switch toLowerCase_gpt3_5_iff [of s] toLowerCase_gpt4_iff [of s]
    by (intro conjI)
qed

subsection \<open>C10: the resolver does not see the case of its input\<close>

text \<open>
  Claim C10: resolving \<open>s\<close> and resolving the lower-case form of \<open>s\<close> end the same way.
  Either both return the same model, or both throw the unsupported-model error (whose
  message quotes the string that was passed in). In particular \<open>GPT4\<close> resolves as
  \<open>gpt4\<close> does.
\<close>

theorem C10_case_insensitive:
  "((\<exists>m. getChatModelFromString s = Inr m \<and> getChatModelFromString (toLowerCase s) = Inr m)
    \<or> (getChatModelFromString s = Inl (unsupportedModel s)
        \<and> getChatModelFromString (toLowerCase s) = Inl (unsupportedModel (toLowerCase s))))
   \<and> getChatModelFromString ''GPT4'' = getChatModelFromString ''gpt4''"
proof -
  have "getChatModelFromString ''GPT4'' = getChatModelFromString ''gpt4''"
    by (simp add: getChatModelFromString_def Let_def toLowerCase_GPT4 toLowerCase_gpt4)
  then show ?thesis
    by (simp add: getChatModelFromString_def Let_def toLowerCase_idem)
qed

subsection \<open>C7: the order of the router's tests\<close>

text \<open>
  Claim C7: an input that starts with the hosting prefix is handed to the downloader, also
  when it ends in \<open>.mp3\<close>; otherwise an input that ends in \<open>.mp3\<close> is handed to the
  aggregator; any other input only gets the error line on the console: no pipeline is
  launched for it and no file changes. A list of inputs is routed one input after the other.
\<close>

theorem C7_router:
  "main [s] w =
     (if prefix ''https://www.youtube.com/'' s then ([DownloadAudioFromYouTube s], w)
      else if suffix ''.mp3'' s then ([TranscribeLargeAudioFile s], w)
      else ([], w\<lparr>console := console w
                     @ [Err ''Invalid input. Please provide a YouTube link or an mp3 file.'']\<rparr>))
   \<and> main (s # rest) w =
       (case main [s] w of (first, w') \<Rightarrow>
          (case main rest w' of (others, w'') \<Rightarrow> (first @ others, w'')))
   \<and> files (snd (main inputs w)) = files w"
  unfolding main_single startsWith_prefix endsWith_suffix
  using main_Cons [of s rest w] main_files [of inputs w]
  unfolding main_single startsWith_prefix endsWith_suffix consoleError_def
  by blast

subsection \<open>C5: the cleanup\<close>

text \<open>
  Claim C5: whatever the working directory holds, the chunk names have a first missing
  index \<open>N\<close> (the directory is finite), and the cleanup returns without an error having
  removed exactly the chunks \<open>0\<close> to \<open>N - 1\<close>: none of them exists afterwards, every
  other file, also a chunk beyond the gap, is as it was, and with no chunk \<open>0\<close> nothing
  changes at all. The cleanup reads nothing but the directory, so what the transcriptions
  did before it plays no part.
\<close>

theorem C5_cleanup:
  "(\<exists>M. (\<forall>i<M. existsSync (files w) (chunkFileName i)) \<and> \<not> existsSync (files w) (chunkFileName M))
   \<and> ((\<forall>i<N. existsSync (files w) (chunkFileName i)) \<and> \<not> existsSync (files w) (chunkFileName N)
        \<longrightarrow> (\<exists>w'. cleanupAudioChunks w = Inr w'
              \<and> w' = w\<lparr>files := filter (\<lambda>entry. fst entry \<notin> chunkFileName ` {..<N}) (files w)\<rparr>
              \<and> (\<forall>i<N. \<not> existsSync (files w') (chunkFileName i))
              \<and> (\<forall>path. path \<notin> chunkFileName ` {..<N}
                    \<longrightarrow> readFile (files w') path = readFile (files w) path)
              \<and> (N = 0 \<longrightarrow> w' = w)))"
proof (intro conjI impI)
  show "\<exists>M. (\<forall>i<M. existsSync (files w) (chunkFileName i))
      \<and> \<not> existsSync (files w) (chunkFileName M)"
    by (rule first_gap_exists)
next
  assume gap: "(\<forall>i<N. existsSync (files w) (chunkFileName i))
      \<and> \<not> existsSync (files w) (chunkFileName N)"
  define fs' where "fs' = filter (\<lambda>entry. fst entry \<notin> chunkFileName ` {..<N}) (files w)"
  have "cleanupLoop 0 (chunkFileName 0) (files w)
      = Inr (filter (\<lambda>entry. fst entry \<notin> chunkFileName ` {0..<N}) (files w))"
    using gap by (intro cleanupLoop_gap) simp_all
  then have run: "cleanupAudioChunks w = Inr (w\<lparr>files := fs'\<rparr>)"
    by (simp add: cleanupAudioChunks_def fs'_def lessThan_atLeast0)
  have none: "\<forall>i<N. \<not> existsSync fs' (chunkFileName i)"
    by (simp add: fs'_def existsSync_filter_notin)
  have rest: "\<forall>path. path \<notin> chunkFileName ` {..<N} \<longrightarrow> readFile fs' path = readFile (files w) path"
    by (simp add: fs'_def readFile_filter_notin)
  have same: "N = 0 \<longrightarrow> w\<lparr>files := fs'\<rparr> = w"
    by (simp add: fs'_def)
  from run none rest same
  show "\<exists>w'. cleanupAudioChunks w = Inr w'
      \<and> w' = w\<lparr>files := filter (\<lambda>entry. fst entry \<notin> chunkFileName ` {..<N}) (files w)\<rparr>
      \<and> (\<forall>i<N. \<not> existsSync (files w') (chunkFileName i))
      \<and> (\<forall>path. path \<notin> chunkFileName ` {..<N}
            \<longrightarrow> readFile (files w') path = readFile (files w) path)
      \<and> (N = 0 \<longrightarrow> w' = w)"
    by (simp add: fs'_def)
qed

theorem C5_cleanup_witness:
  "cleanupAudioChunks cleanupExample
     = Inr (cleanupExample\<lparr>files := [(''talk.mp3'', ''audio''), (''out003.mp3'', ''chunk 3'')]\<rparr>)"
proof -
  note names = chunkFileName_0 chunkFileName_1 chunkFileName_2
  have full: "\<forall>i<2. existsSync (files cleanupExample) (chunkFileName i)"
    by (simp add: numeral_2_eq_2 All_less_Suc names existsSync_def cleanupExample_def)
  have gap: "\<not> existsSync (files cleanupExample) (chunkFileName 2)"
    by (simp add: numeral_2_eq_2 names existsSync_def cleanupExample_def)
  from full gap C5_cleanup [of cleanupExample 2] show ?thesis
    by (simp add: numeral_2_eq_2 lessThan_Suc names cleanupExample_def)
qed

subsection \<open>C8: no summary unless asked for\<close>

text \<open>
  Claim C8: with the summarize flag off, whatever the backends answer and however far the
  run gets, no request is sent to the chat backend, and the only file the run can add or
  change is the transcript: every other file that exists at the end, the summary file in
  particular, was there with the same content when the splitter had finished.
\<close>

theorem C8_no_summary:
  assumes "\<not> summarize A"
  shows "chatRequests (snd (transcribeLargeAudioFile B A fuel audioFileName w0)) = chatRequests w0
    \<and> (\<forall>path content.
          path \<noteq> stringReplace audioFileName ''.mp3'' '''' @ ''_transcript.txt''
          \<longrightarrow> readFile (files (snd (transcribeLargeAudioFile B A fuel audioFileName w0))) path
                = Some content
          \<longrightarrow> readFile (files (splitAudioFile B audioFileName w0)) path = Some content)
    \<and> (\<forall>content.
          readFile (files (snd (transcribeLargeAudioFile B A fuel audioFileName w0)))
            (stringReplace audioFileName ''.mp3'' '''' @ ''_summary.txt'') = Some content
          \<longrightarrow> readFile (files (splitAudioFile B audioFileName w0))
                (stringReplace audioFileName ''.mp3'' '''' @ ''_summary.txt'') = Some content)"
proof -
  define ws where "ws = consoleLog ''\<newline>'' (splitAudioFile B audioFileName w0)"
  define tn where "tn = stringReplace audioFileName ''.mp3'' '''' @ ''_transcript.txt''"
  define sn where "sn = stringReplace audioFileName ''.mp3'' '''' @ ''_summary.txt''"
  define w' where "w' = snd (transcribeLargeAudioFile B A fuel audioFileName w0)"
  have ws: "files ws = files (splitAudioFile B audioFileName w0)" "chatRequests ws = chatRequests w0"
    by (simp_all add: ws_def consoleLog_def splitAudioFile_chat)
  obtain r w1 where scan: "scanLoop B fuel 0 (chunkFileName 0) '''' ws = (r, w1)"
    by (cases "scanLoop B fuel 0 (chunkFileName 0) '''' ws")
  from scanLoop_frame [OF scan] ws
  have w1: "files w1 = files (splitAudioFile B audioFileName w0)" "chatRequests w1 = chatRequests w0"
    by simp_all
  obtain w2 where clean: "cleanupAudioChunks w1 = Inr w2" and w2: "chatRequests w2 = chatRequests w1"
    and kept: "\<forall>path content. readFile (files w2) path = Some content
           \<longrightarrow> readFile (files w1) path = Some content"
    using cleanupAudioChunks_world [of w1] by blast
  have main: "chatRequests w' = chatRequests w0
      \<and> (\<forall>path content. path \<noteq> tn \<longrightarrow> readFile (files w') path = Some content
            \<longrightarrow> readFile (files w1) path = Some content)"
  proof (cases r)
    case None
    with scan have "w' = w1"
      by (simp add: w'_def transcribeLargeAudioFile_def ws_def)
    with w1 show ?thesis by simp
  next
    case (Some agg)
    show ?thesis
    proof (cases "agg = ''''")
      case True
      with Some scan clean have "w' = consoleError ''No transcriptions were processed'' w2"
        by (simp add: w'_def transcribeLargeAudioFile_def ws_def)
      with w1 w2 kept show ?thesis by (simp add: consoleError_def)
    next
      case False
      show ?thesis
      proof (cases "splitStringIntoLines agg 80")
        case (Inl e)
        with False Some scan clean have "w' = w2"
          by (simp add: w'_def transcribeLargeAudioFile_def ws_def Let_def)
        with w1 w2 kept show ?thesis by simp
      next
        case (Inr wrapped)
        with False Some scan clean assms
        have "w' = consoleLog (''\<newline>All transcriptions aggregated and saved to '' @ quoted tn)
                     (w2\<lparr>files := writeFileSync (files w2) tn wrapped\<rparr>)"
          by (simp add: w'_def transcribeLargeAudioFile_def ws_def Let_def tn_def)
        with w1 w2 kept show ?thesis
          by (simp add: consoleLog_def readFile_writeFileSync)
      qed
    qed
  qed
  from main w1 have a: "chatRequests w' = chatRequests w0"
    and b: "\<forall>path content. path \<noteq> tn \<longrightarrow> readFile (files w') path = Some content
          \<longrightarrow> readFile (files (splitAudioFile B audioFileName w0)) path = Some content"
    by simp_all
  have "sn \<noteq> tn"
    by (simp add: sn_def tn_def)
  with b have c: "\<forall>content. readFile (files w') sn = Some content
      \<longrightarrow> readFile (files (splitAudioFile B audioFileName w0)) sn = Some content"
    by blast
  show ?thesis
    using a b c unfolding w'_def tn_def sn_def by (intro conjI)
qed

theorem C8_no_summary_witness:
  "\<not> summarize (cli False)
   \<and> fst (transcribeLargeAudioFile (answering helloWorld) (cli False) 3 ''talk.mp3'' talkWorld) = Returned
   \<and> chatRequests (snd (transcribeLargeAudioFile (answering helloWorld) (cli False) 3 ''talk.mp3'' talkWorld)) = []
   \<and> readFile (files (snd (transcribeLargeAudioFile (answering helloWorld) (cli False) 3 ''talk.mp3'' talkWorld)))
        ''talk_summary.txt'' = None
   \<and> readFile (files (snd (transcribeLargeAudioFile (answering helloWorld) (cli False) 3 ''talk.mp3'' talkWorld)))
        ''talk_transcript.txt'' = Some ''Hello world\<newline>Hello world''"
proof -
  have off: "\<not> summarize (cli False)"
    by (simp add: cli_def)
  note frame = C8_no_summary [OF off, of "answering helloWorld" 3 "''talk.mp3''" talkWorld]
  from frame have "chatRequests (snd (transcribeLargeAudioFile (answering helloWorld) (cli False) 3
      ''talk.mp3'' talkWorld)) = []"
    by (simp add: talkWorld_def)
  moreover from frame have "readFile (files (snd (transcribeLargeAudioFile (answering helloWorld)
      (cli False) 3 ''talk.mp3'' talkWorld))) ''talk_summary.txt'' = None"
    unfolding summary_name split_no_summary by (cases "readFile (files (snd (transcribeLargeAudioFile (answering helloWorld)
      (cli False) 3 ''talk.mp3'' talkWorld))) ''talk_summary.txt''") auto
  ultimately show ?thesis
    using off run_returns run_transcript by simp
qed

subsection \<open>C1: a chunk whose transcription fails\<close>

text \<open>
  Claim C1 says that on a failed transcription the aggregator logs the failure and goes on
  with the next chunk, so that with \<open>out000.mp3\<close> transcribed to \<open>Hello world\<close> and
  \<open>out001.mp3\<close> failing the run ends with the transcript of the first chunk. The loop
  does log the failure, but its \<^verbatim>\<open>continue\<close> comes before the statement that advances
  \<open>fileName\<close>, so the next turn tests and sends the same file again. The theorem
  evaluates the run of the claim's example, with a backend that rejects every request for
  the second chunk: whatever the fuel, the run is still inside the loop, no transcript
  file exists, and the requests are \<open>out000.mp3\<close> once and then \<open>out001.mp3\<close> every turn.
\<close>

theorem C1_second_chunk_fails:
  "fst (transcribeLargeAudioFile (answering helloThenFailure) A fuel ''talk.mp3'' talkWorld) = Pending
   \<and> readFile (files (snd (transcribeLargeAudioFile (answering helloThenFailure) A fuel
          ''talk.mp3'' talkWorld))) ''talk_transcript.txt'' = None
   \<and> transcriptionRequests (snd (transcribeLargeAudioFile (answering helloThenFailure) A fuel
          ''talk.mp3'' talkWorld))
       = take fuel (''out000.mp3'' # replicate fuel ''out001.mp3'')"
proof -
  define B where "B = answering helloThenFailure"
  define ws where "ws = consoleLog ''\<newline>'' (splitAudioFile B ''talk.mp3'' talkWorld)"
  have ws: "files ws = [(''out001.mp3'', ''chunk 1''), (''out000.mp3'', ''chunk 0''),
      (''talk.mp3'', ''audio'')]" "transcriptionRequests ws = []"
    by (simp_all add: ws_def B_def talk_start)
  have "\<exists>w'. scanLoop B fuel 0 (chunkFileName 0) '''' ws = (None, w') \<and> files w' = files ws
      \<and> transcriptionRequests w' = take fuel (''out000.mp3'' # replicate fuel ''out001.mp3'')"
  proof (cases fuel)
    case 0
    then show ?thesis by (simp add: ws)
  next
    case (Suc n)
    have "existsSync (files ws) (chunkFileName 0)"
      by (simp add: ws existsSync_def chunkFileName_0)
    moreover have "createTranscription B (length (transcriptionRequests ws)) (chunkFileName 0)
        = Replied (Some ''Hello world'')"
      by (simp add: B_def answering_def helloThenFailure_def)
    ultimately obtain w1 where first: "scanLoop B (Suc n) 0 (chunkFileName 0) '''' ws
        = scanLoop B n (Suc 0) (chunkFileName (Suc 0)) ('''' @ ''Hello world'' @ ''\<newline>\<newline>'') w1"
      and w1: "files w1 = files ws" "transcriptionRequests w1 = transcriptionRequests ws @ [chunkFileName 0]"
      using scanLoop_success_step [of ws "chunkFileName 0" B "''Hello world''" n 0 "''''"] by blast
    have "existsSync (files w1) (chunkFileName (Suc 0))"
      by (simp add: w1 ws existsSync_def chunkFileName_1)
    moreover have "\<forall>k t. createTranscription B k (chunkFileName (Suc 0)) \<noteq> Replied (Some t)"
      by (simp add: B_def answering_def helloThenFailure_def)
    ultimately obtain w' where stuck: "scanLoop B n (Suc 0) (chunkFileName (Suc 0))
        ('''' @ ''Hello world'' @ ''\<newline>\<newline>'') w1 = (None, w')"
      and same: "files w' = files w1"
      and more: "transcriptionRequests w' = transcriptionRequests w1 @ replicate n (chunkFileName (Suc 0))"
      using scanLoop_stuck [of w1 "chunkFileName (Suc 0)" B n "Suc 0"] by blast
    have "scanLoop B fuel 0 (chunkFileName 0) '''' ws = (None, w')"
      by (simp only: Suc first stuck)
    moreover have "files w' = files ws"
      by (simp only: same w1)
    moreover have "take n (x # replicate n x) = replicate n x" for x :: string
      using take_replicate [of n "Suc n" x] by simp
    then have "transcriptionRequests w' = take fuel (''out000.mp3'' # replicate fuel ''out001.mp3'')"
      by (simp add: more w1 ws Suc chunkFileName_0 chunkFileName_1)
    ultimately show ?thesis by blast
  qed
  then obtain w' where scan: "scanLoop B fuel 0 (chunkFileName 0) '''' ws = (None, w')"
    and w': "files w' = files ws"
      "transcriptionRequests w' = take fuel (''out000.mp3'' # replicate fuel ''out001.mp3'')"
    by blast
  from scan have "transcribeLargeAudioFile B A fuel ''talk.mp3'' talkWorld = (Pending, w')"
    unfolding ws_def by (rule transcribeLargeAudioFile_pending)
  with w' ws show ?thesis
    by (simp add: B_def readFile_def)
qed

subsection \<open>C4: the scan up to the first missing chunk\<close>

text \<open>
  Claim C4 says that with chunks \<open>0\<close> to \<open>N - 1\<close> present and chunk \<open>N\<close> missing the scan
  processes exactly the chunks \<open>0\<close> to \<open>N - 1\<close>, in order. It does when every request is
  answered (\<open>scanLoop_all_answered\<close> below). With a request that keeps failing it does
  not, for the reason given under C1: here chunks 0 and 1 are present, every request for
  chunk 0 is rejected, and for every fuel all the requests sent are for \<open>out000.mp3\<close>;
  \<open>out001.mp3\<close> is there and is never processed.
\<close>

theorem C4_first_chunk_fails:
  "fst (transcribeLargeAudioFile (answering firstChunkFails) A fuel ''talk.mp3'' talkWorld) = Pending
   \<and> transcriptionRequests (snd (transcribeLargeAudioFile (answering firstChunkFails) A fuel
          ''talk.mp3'' talkWorld)) = replicate fuel ''out000.mp3''
   \<and> existsSync (files (snd (transcribeLargeAudioFile (answering firstChunkFails) A fuel
          ''talk.mp3'' talkWorld))) ''out001.mp3''"
proof -
  have "\<forall>k t. firstChunkFails k (chunkFileName 0) \<noteq> Replied (Some t)"
    by (simp add: firstChunkFails_def)
  from first_chunk_rejected [of firstChunkFails A fuel, OF this] show ?thesis
    by (auto simp: existsSync_def)
qed

subsection \<open>C6: an empty transcription\<close>

text \<open>
  Claim C6 says that when the aggregated transcription is empty after the scan, in
  particular when every transcription fails, the aggregator logs an error and writes
  nothing. The test after the loop does that (\<open>no_chunks_reported\<close> below is the case of
  no chunk at all), but when every transcription fails the loop is never left, for the
  reason given under C1. With a backend that rejects every request, for every fuel the
  run is still inside the loop and the line \<open>No transcriptions were processed\<close> is not on
  the console.
\<close>

theorem C6_every_chunk_fails:
  "fst (transcribeLargeAudioFile (answering unauthorized) A fuel ''talk.mp3'' talkWorld) = Pending
   \<and> Err ''No transcriptions were processed''
        \<notin> set (console (snd (transcribeLargeAudioFile (answering unauthorized) A fuel
              ''talk.mp3'' talkWorld)))
   \<and> transcriptionRequests (snd (transcribeLargeAudioFile (answering unauthorized) A fuel
          ''talk.mp3'' talkWorld)) = replicate fuel ''out000.mp3''"
proof -
  have "\<forall>k t. unauthorized k (chunkFileName 0) \<noteq> Replied (Some t)"
    by (simp add: unauthorized_def)
  from first_chunk_rejected [of unauthorized A fuel, OF this]
  obtain w' where run: "transcribeLargeAudioFile (answering unauthorized) A fuel ''talk.mp3'' talkWorld
      = (Pending, w')"
    and req: "transcriptionRequests w' = replicate fuel ''out000.mp3''"
    and con: "\<forall>l \<in> set (console w'). l = Log ''\<newline>'' \<or> scanLine l"
    by blast
  have "\<not> scanLine (Err ''No transcriptions were processed'')"
    by (simp add: scanLine_def)
  with con have "Err ''No transcriptions were processed'' \<notin> set (console w')"
    by blast
  with run req show ?thesis by simp
qed

section \<open>Further properties\<close>

subsection \<open>The scan stops at the first missing chunk\<close>

text \<open>
  Property X1. When the speech backend answers every request with a text, chunks \<open>0\<close> to \<open>N - 1\<close>
  exist and chunk \<open>N\<close> does not, the scan leaves the loop after \<open>N\<close> turns. It has then
  sent exactly the chunks \<open>0\<close> to \<open>N - 1\<close>, in this order, and aggregated their texts,
  each followed by two line feeds. A chunk beyond the gap is never sent.
\<close>

theorem X1_scan_to_gap:
  assumes "\<forall>k j. \<exists>t. createTranscription B k (chunkFileName j) = Replied (Some t)"
    and "\<forall>j<N. existsSync (files w) (chunkFileName j)"
    and "\<not> existsSync (files w) (chunkFileName N)"
    and "N < fuel"
  shows "\<exists>w'. scanLoop B fuel 0 (chunkFileName 0) agg w
           = (Some (agg @ concat (map (\<lambda>j. answerText (createTranscription B
                  (length (transcriptionRequests w) + j) (chunkFileName j)) @ ''\<newline>\<newline>'')
                [0..<N])), w')
         \<and> transcriptionRequests w' = transcriptionRequests w @ map chunkFileName [0..<N]
         \<and> files w' = files w \<and> chatRequests w' = chatRequests w"
  using scanLoop_all_answered [of B 0 N w fuel agg] assms by simp

theorem X1_scan_to_gap_witness:
  "\<exists>w'. scanLoop (answering helloWorld) 3 0 (chunkFileName 0) '''' cleanupExample
          = (Some ''Hello world\<newline>\<newline>Hello world\<newline>\<newline>'', w')
        \<and> transcriptionRequests w' = [''out000.mp3'', ''out001.mp3'']
        \<and> existsSync (files w') ''out003.mp3''"
proof -
  note names = chunkFileName_0 chunkFileName_1 chunkFileName_2
  have answered: "\<forall>k j. \<exists>t. createTranscription (answering helloWorld) k (chunkFileName j)
      = Replied (Some t)"
    by (simp add: answering_def helloWorld_def)
  have full: "\<forall>j<2. existsSync (files cleanupExample) (chunkFileName j)"
    by (simp add: numeral_2_eq_2 All_less_Suc names existsSync_def cleanupExample_def)
  have gap: "\<not> existsSync (files cleanupExample) (chunkFileName 2)"
    by (simp add: numeral_2_eq_2 names existsSync_def cleanupExample_def)
  have "(2::nat) < 3" by simp
  from X1_scan_to_gap [OF answered full gap this, of "''''"]
  show ?thesis
    by (auto simp add: numeral_2_eq_2 names answering_def helloWorld_def answerText_def
        cleanupExample_def existsSync_def)
qed

subsection \<open>A run without chunks\<close>

text \<open>
  Property X2. When no chunk \<open>out000.mp3\<close> exists after the splitter has run, the run returns after
  one test of the loop condition: it prints \<open>No transcriptions were processed\<close> on the
  error stream, writes no file and sends no request.
\<close>

theorem X2_no_chunks:
  assumes "\<not> existsSync (files (splitAudioFile B a w0)) (chunkFileName 0)" and "0 < fuel"
  shows "transcribeLargeAudioFile B A fuel a w0
     = (Returned, (splitAudioFile B a w0)
          \<lparr>console := console (splitAudioFile B a w0)
             @ [Log ''\<newline>'', Err ''No transcriptions were processed'']\<rparr>)"
  using no_chunks_reported [OF assms, of A] by (simp add: consoleError_def consoleLog_def)

theorem X2_no_chunks_witness:
  "transcribeLargeAudioFile ((answering helloWorld)\<lparr>execSync := brokenSplitter\<rparr>) (cli True) 1
      ''talk.mp3'' talkWorld
     = (Returned, talkWorld\<lparr>console := [Err ''Error splitting audio: Command failed'',
                                          Log ''\<newline>'', Err ''No transcriptions were processed'']\<rparr>)"
proof -
  have split: "splitAudioFile ((answering helloWorld)\<lparr>execSync := brokenSplitter\<rparr>) ''talk.mp3'' talkWorld
      = talkWorld\<lparr>console := [Err ''Error splitting audio: Command failed'']\<rparr>"
    by (simp add: splitAudioFile_def brokenSplitter_def answering_def talkWorld_def consoleError_def)
  have "\<not> existsSync (files (splitAudioFile ((answering helloWorld)\<lparr>execSync := brokenSplitter\<rparr>)
      ''talk.mp3'' talkWorld)) (chunkFileName 0)"
    unfolding split by (simp add: talkWorld_def existsSync_def chunkFileName_0)
  from X2_no_chunks [OF this, of 1 "cli True"] show ?thesis
    unfolding split by (simp add: talkWorld_def)
qed

subsection \<open>Joining the lines of a text without line terminators\<close>

text \<open>
  Property X3. At a positive width that is a whole number below \<open>2\<^sup>3\<^sup>2\<close>, for every
  input that is not empty and holds no line terminator, the wrapper returns the join of
  lines that are not empty, at most as long as the width and free of line terminators;
  the line feeds of the result are the inserted ones, and the lines, put end to end, are
  the input exactly.
\<close>

theorem X3_rejoin_plain:
  fixes W :: "32 word"
  assumes "0 < unat W" and "T \<noteq> []" and "\<forall>c \<in> set T. \<not> isLineTerminator c"
  shows "\<exists>lines. splitStringIntoLines T W = Inr (join lines ''\<newline>'')
           \<and> (\<forall>l \<in> set lines. l \<noteq> [] \<and> length l \<le> unat W
                 \<and> (\<forall>c \<in> set l. \<not> isLineTerminator c))
           \<and> filter (\<lambda>c. c \<noteq> CHR 0x0A) (join lines ''\<newline>'') = concat lines
           \<and> concat lines = T"
proof -
  from assms(1) obtain w where W: "unat W = Suc w"
    by (cases "unat W") auto
  from assms(2,3) have some: "\<not> (\<forall>c \<in> set T. isLineTerminator c)"
    by (cases T) auto
  have "splitStringIntoLines T W = Inr (join (regexMatchAll w T) ''\<newline>'')"
    using some by (simp add: splitStringIntoLines_Suc [OF W])
  moreover have shape: "\<forall>l \<in> set (regexMatchAll w T).
      l \<noteq> [] \<and> length l \<le> unat W \<and> (\<forall>c \<in> set l. \<not> isLineTerminator c)"
    using regexMatchAll_lines [of _ w T] by (simp add: W)
  moreover from shape have "filter (\<lambda>c. c \<noteq> CHR 0x0A) (join (regexMatchAll w T) ''\<newline>'')
      = concat (regexMatchAll w T)"
    by (intro filter_join_newline) blast
  moreover have "concat (regexMatchAll w T) = T"
    using assms(3) by (simp add: concat_regexMatchAll filter_id_conv)
  ultimately show ?thesis by blast
qed

theorem X3_rejoin_plain_witness:
  "\<exists>lines. splitStringIntoLines ''Hello world'' 4 = Inr (join lines ''\<newline>'')
      \<and> (\<forall>l \<in> set lines. length l \<le> 4) \<and> concat lines = ''Hello world''"
proof -
  have "0 < unat (4 :: 32 word)" by simp
  moreover have "''Hello world'' \<noteq> []" by simp
  moreover have "\<forall>c \<in> set ''Hello world''. \<not> isLineTerminator c"
    by (simp add: isLineTerminator_def)
  ultimately obtain lines
    where "splitStringIntoLines ''Hello world'' 4 = Inr (join lines ''\<newline>'')"
      and "\<forall>l \<in> set lines. l \<noteq> [] \<and> length l \<le> unat (4 :: 32 word)
            \<and> (\<forall>c \<in> set l. \<not> isLineTerminator c)"
      and "concat lines = ''Hello world''"
    using X3_rejoin_plain [of 4 "''Hello world''"] by blast
  then show ?thesis
    by (intro exI [of _ lines]) simp
qed

end
